theory Spec2Isabelle
  imports Main
begin

section \<open>Data model of the tracer (src/src/tracer.js)\<close>

text \<open>
  Addresses, hashes and transaction values are JavaScript strings. Depths, limits and
  timestamps are JavaScript numbers that hold integers. A property of a ledger record
  that may be absent (or \<^verbatim>\<open>null\<close>) is an \<open>option\<close>. Console output is not modelled.
\<close>

datatype error =
    InvalidInputError string
  | FetchError string
  | UnsupportedFormatError string

record tx =
  tx_hash :: string
  tx_from :: "string option"
  tx_to :: "string option"
  tx_value :: string
  tx_timestamp :: int

record node =
  node_address :: string
  node_depth :: int
  node_type :: string

record edge =
  edge_from :: string
  edge_to :: string
  edge_value :: string
  edge_hash :: string
  edge_timestamp :: int

record metadata =
  meta_network :: string
  meta_depth :: int
  meta_timestamp :: string

text \<open>
  The graph under construction: \<open>nodes\<close> is a JavaScript \<^verbatim>\<open>Map\<close> from the address
  string to the node, kept as an association list in insertion order (the order in which
  \<^verbatim>\<open>Map.prototype.values\<close> yields it); \<open>edges\<close> is an array.
\<close>

record graph =
  nodes :: "(string \<times> node) list"
  edges :: "edge list"
  startAddress :: string
  metadata :: metadata

text \<open>
  What \<^verbatim>\<open>_formatGraph\<close> returns. JavaScript numbers that need not be integers (the
  parsed transaction values and their sums) have an abstract type \<open>'n\<close>.
\<close>

record 'n summary =
  nodeCount :: int
  edgeCount :: int
  totalValue :: 'n

record 'n formatted =
  fg_nodes :: "node list"
  fg_edges :: "edge list"
  fg_startAddress :: string
  fg_metadata :: metadata
  fg_summary :: "'n summary"

record options =
  opt_depth :: "int option"
  opt_direction :: "string option"

text \<open>What \<^verbatim>\<open>tracePath\<close> returns.\<close>

record pathset =
  ps_from :: string
  ps_to :: string
  ps_paths :: "string list list"
  ps_pathCount :: int
  ps_network :: string

text \<open>
  The object of \<^verbatim>\<open>_getAddressFlow\<close>. Its literal has no \<^verbatim>\<open>netFlow\<close> property; the
  property is assigned inside the \<^verbatim>\<open>try\<close> block, so it is an \<open>option\<close> here, \<open>None\<close>
  while the object does not have it.
\<close>

record 'n flow =
  flow_address :: string
  flow_incoming :: "tx list"
  flow_outgoing :: "tx list"
  flow_totalIn :: 'n
  flow_totalOut :: 'n
  flow_transactionCount :: int
  flow_netFlow :: "'n option"

record config =
  cfg_network :: string
  cfg_maxDepth :: int
  cfg_maxTransactionsPerAddress :: int
  cfg_maxTransactionsForPaths :: int

record config_arg =
  arg_network :: "string option"
  arg_maxDepth :: "int option"
  arg_maxTransactionsPerAddress :: "int option"
  arg_maxTransactionsForPaths :: "int option"

text \<open>
  The ledger source behind \<^verbatim>\<open>_fetchAddressTransactions(address, limit)\<close>. The method
  in the repository is a mock that draws random records; the model takes the ledger as a
  parameter with a state of its own, so that two fetches of one address may differ, and
  lets it fail (the fetch is awaited inside \<^verbatim>\<open>try\<close>).
\<close>

type_synonym 'l ledger = "'l \<Rightarrow> string \<Rightarrow> int \<Rightarrow> (error + tx list) \<times> 'l"

text \<open>
  The mock of the repository as such a ledger. What it draws (the hash, the destination
  and the value from \<^verbatim>\<open>Math.random\<close>, and the clock \<^verbatim>\<open>Date.now()\<close>) comes from a supply
  \<open>draw\<close>; the state counts the draws. It makes \<^verbatim>\<open>Math.min(limit, 5)\<close> transactions out
  of the address and never fails.
\<close>

definition mockTransaction :: "string \<Rightarrow> nat \<Rightarrow> string \<times> string \<times> string \<times> int \<Rightarrow> tx" where
  "mockTransaction address i d =
     (case d of (h, t, v, now) \<Rightarrow>
        \<lparr> tx_hash = h, tx_from = Some address, tx_to = Some t, tx_value = v,
          tx_timestamp = now - int i * 3600000 \<rparr>)"

definition fetchAddressTransactions ::
    "(nat \<Rightarrow> string \<times> string \<times> string \<times> int) \<Rightarrow> nat ledger" where
  "fetchAddressTransactions draw c address limit =
     (let n = nat (min limit 5) in
      (Inr (map (\<lambda>i. mockTransaction address i (draw (c + i))) [0..<n]), c + n))"

section \<open>JavaScript primitives used by the tracer\<close>

definition lower_char :: "char \<Rightarrow> char" where
  "lower_char c =
     (case map_of (zip ''ABCDEFGHIJKLMNOPQRSTUVWXYZ'' ''abcdefghijklmnopqrstuvwxyz'') c of
        Some d \<Rightarrow> d
      | None \<Rightarrow> c)"

text \<open>\<^verbatim>\<open>String.prototype.toLowerCase\<close>, on ASCII letters.\<close>

definition toLowerCase :: "string \<Rightarrow> string" where
  "toLowerCase s = map lower_char s"

text \<open>Truthiness of a property that holds a string when present.\<close>

fun truthy :: "string option \<Rightarrow> bool" where
  "truthy None = False"
| "truthy (Some s) = (s \<noteq> [])"

text \<open>\<^verbatim>\<open>xs.slice(0, n)\<close>: a negative \<open>n\<close> counts from the end of the array.\<close>

definition slice0 :: "'a list \<Rightarrow> int \<Rightarrow> 'a list" where
  "slice0 xs n = (if n < 0 then take (nat (int (length xs) + n)) xs else take (nat n) xs)"

definition map_has :: "(string \<times> 'v) list \<Rightarrow> string \<Rightarrow> bool" where
  "map_has m k = (map_of m k \<noteq> None)"

definition map_set :: "(string \<times> 'v) list \<Rightarrow> string \<Rightarrow> 'v \<Rightarrow> (string \<times> 'v) list" where
  "map_set m k v =
     (if map_has m k then map (\<lambda>(k', v'). if k' = k then (k', v) else (k', v')) m
      else m @ [(k, v)])"

definition map_values :: "(string \<times> 'v) list \<Rightarrow> 'v list" where
  "map_values m = map snd m"

section \<open>Constructor and validation\<close>

text \<open>
  The constructor fills each default with \<^verbatim>\<open>config.x || default\<close> and then spreads
  \<^verbatim>\<open>...config\<close> over the result, so a property that the caller passed wins even when it is
  falsy; the default stays only where the property is absent.
\<close>

definition constructor :: "config_arg \<Rightarrow> config" where
  "constructor c =
     \<lparr> cfg_network = (case arg_network c of None \<Rightarrow> ''ethereum'' | Some n \<Rightarrow> n),
       cfg_maxDepth = (case arg_maxDepth c of None \<Rightarrow> 5 | Some d \<Rightarrow> d),
       cfg_maxTransactionsPerAddress =
         (case arg_maxTransactionsPerAddress c of None \<Rightarrow> 10 | Some d \<Rightarrow> d),
       cfg_maxTransactionsForPaths =
         (case arg_maxTransactionsForPaths c of None \<Rightarrow> 5 | Some d \<Rightarrow> d) \<rparr>"

definition validateAddress :: "string \<Rightarrow> error + unit" where
  "validateAddress a =
     (if a = [] then Inl (InvalidInputError ''Address must be a non-empty string'')
      else Inr ())"

section \<open>Graph Builder\<close>

definition mkEdge :: "string \<Rightarrow> string \<Rightarrow> tx \<Rightarrow> edge" where
  "mkEdge f t x =
     \<lparr> edge_from = f, edge_to = t, edge_value = tx_value x,
       edge_hash = tx_hash x, edge_timestamp = tx_timestamp x \<rparr>"

definition pushEdge :: "graph \<Rightarrow> edge \<Rightarrow> graph" where
  "pushEdge g e = g\<lparr>edges := edges g @ [e]\<rparr>"

definition mkNode :: "string \<Rightarrow> int \<Rightarrow> node" where
  "mkNode a d =
     \<lparr> node_address = a, node_depth = d,
       node_type = (if d = 0 then ''origin'' else ''intermediary'') \<rparr>"

text \<open>
  \<^verbatim>\<open>_traceRecursive\<close>, its \<^verbatim>\<open>for\<close> loop over the sliced transactions
  (\<open>traceLoop\<close>) and the two blocks of the loop body: \<open>traceOut\<close> is the block under
  \<^verbatim>\<open>direction === 'out' || direction === 'both'\<close>, \<open>traceIn\<close> the block under
  \<^verbatim>\<open>direction === 'in' || direction === 'both'\<close>. The graph and the ledger state are
  threaded through; a failed fetch leaves the \<^verbatim>\<open>try\<close> block before the loop starts,
  with the node already set.
\<close>

function traceRecursive ::
    "config \<Rightarrow> 'l ledger \<Rightarrow> string \<Rightarrow> graph \<Rightarrow> 'l \<Rightarrow> int \<Rightarrow> int \<Rightarrow> string \<Rightarrow> graph \<times> 'l"
  and traceLoop ::
    "config \<Rightarrow> 'l ledger \<Rightarrow> string \<Rightarrow> tx list \<Rightarrow> graph \<Rightarrow> 'l \<Rightarrow> int \<Rightarrow> int \<Rightarrow> string \<Rightarrow> graph \<times> 'l"
  and traceOut ::
    "config \<Rightarrow> 'l ledger \<Rightarrow> string \<Rightarrow> tx \<Rightarrow> graph \<Rightarrow> 'l \<Rightarrow> int \<Rightarrow> int \<Rightarrow> string \<Rightarrow> graph \<times> 'l"
  and traceIn ::
    "config \<Rightarrow> 'l ledger \<Rightarrow> string \<Rightarrow> tx \<Rightarrow> graph \<Rightarrow> 'l \<Rightarrow> int \<Rightarrow> int \<Rightarrow> string \<Rightarrow> graph \<times> 'l"
where
  "traceRecursive cfg fetch address g l currentDepth maxDepth direction =
     (if currentDepth \<ge> maxDepth then (g, l)
      else if map_has (nodes g) address then (g, l)
      else
        (case fetch l address 1 of
           (Inl err, l1) \<Rightarrow>
             (g\<lparr>nodes := map_set (nodes g) address (mkNode address currentDepth)\<rparr>, l1)
         | (Inr transactions, l1) \<Rightarrow>
             traceLoop cfg fetch address
               (slice0 transactions (cfg_maxTransactionsPerAddress cfg))
               (g\<lparr>nodes := map_set (nodes g) address (mkNode address currentDepth)\<rparr>) l1
               currentDepth maxDepth direction))"
| "traceLoop cfg fetch address [] g l currentDepth maxDepth direction = (g, l)"
| "traceLoop cfg fetch address (x # xs) g l currentDepth maxDepth direction =
     (case traceOut cfg fetch address x g l currentDepth maxDepth direction of
        (g1, l1) \<Rightarrow>
          (case traceIn cfg fetch address x g1 l1 currentDepth maxDepth direction of
             (g2, l2) \<Rightarrow> traceLoop cfg fetch address xs g2 l2 currentDepth maxDepth direction))"
| "traceOut cfg fetch address x g l currentDepth maxDepth direction =
     (if direction = ''out'' \<or> direction = ''both'' then
        (case (tx_from x, tx_to x) of
           (Some f, Some t) \<Rightarrow>
             if f \<noteq> [] \<and> toLowerCase f = toLowerCase address \<and> t \<noteq> [] then
               (if currentDepth + 1 < maxDepth
                then traceRecursive cfg fetch t (pushEdge g (mkEdge f t x)) l
                       (currentDepth + 1) maxDepth direction
                else (pushEdge g (mkEdge f t x), l))
             else (g, l)
         | _ \<Rightarrow> (g, l))
      else (g, l))"
| "traceIn cfg fetch address x g l currentDepth maxDepth direction =
     (if direction = ''in'' \<or> direction = ''both'' then
        (case (tx_to x, tx_from x) of
           (Some t, Some f) \<Rightarrow>
             if t \<noteq> [] \<and> toLowerCase t = toLowerCase address \<and> f \<noteq> [] then
               (if currentDepth + 1 < maxDepth
                then traceRecursive cfg fetch f (pushEdge g (mkEdge f t x)) l
                       (currentDepth + 1) maxDepth direction
                else (pushEdge g (mkEdge f t x), l))
             else (g, l)
         | _ \<Rightarrow> (g, l))
      else (g, l))"
  by pat_completeness auto
termination
  by (relation "measures
        [\<lambda>a. case a of
               Inl (Inl (cfg, fetch, address, g, l, d, m, dir)) \<Rightarrow> nat (m - d)
             | Inl (Inr (cfg, fetch, address, xs, g, l, d, m, dir)) \<Rightarrow> nat (m - d)
             | Inr (Inl (cfg, fetch, address, x, g, l, d, m, dir)) \<Rightarrow> nat (m - d)
             | Inr (Inr (cfg, fetch, address, x, g, l, d, m, dir)) \<Rightarrow> nat (m - d),
         \<lambda>a. case a of
               Inl (Inl _) \<Rightarrow> 3
             | Inl (Inr _) \<Rightarrow> 2
             | Inr _ \<Rightarrow> 1,
         \<lambda>a. case a of
               Inl (Inr (cfg, fetch, address, xs, g, l, d, m, dir)) \<Rightarrow> length xs
             | _ \<Rightarrow> 0]")
     auto

declare traceRecursive.simps [simp del] traceLoop.simps [simp del]
  traceOut.simps [simp del] traceIn.simps [simp del]

text \<open>
  \<^verbatim>\<open>parseFloat(v) || 0\<close>: \<open>parseFloat\<close> is a parameter, \<open>None\<close> standing for
  \<^verbatim>\<open>NaN\<close>.
\<close>

definition orZero :: "'n::zero option \<Rightarrow> 'n" where
  "orZero r = (case r of None \<Rightarrow> 0 | Some v \<Rightarrow> v)"

definition formatGraph :: "(string \<Rightarrow> 'n option) \<Rightarrow> graph \<Rightarrow> ('n::{zero,plus}) formatted" where
  "formatGraph parseFloat g =
     \<lparr> fg_nodes = map_values (nodes g),
       fg_edges = edges g,
       fg_startAddress = startAddress g,
       fg_metadata = metadata g,
       fg_summary =
         \<lparr> nodeCount = int (length (nodes g)),
           edgeCount = int (length (edges g)),
           totalValue =
             foldl (\<lambda>sum e. sum + orZero (parseFloat (edge_value e))) 0 (edges g) \<rparr> \<rparr>"

text \<open>
  \<^verbatim>\<open>options.depth || this.config.maxDepth\<close> and \<^verbatim>\<open>options.direction || 'both'\<close>.
\<close>

definition traceDepth :: "config \<Rightarrow> options \<Rightarrow> int" where
  "traceDepth cfg opts =
     (case opt_depth opts of
        Some d \<Rightarrow> if d \<noteq> 0 then d else cfg_maxDepth cfg
      | None \<Rightarrow> cfg_maxDepth cfg)"

definition traceDirection :: "options \<Rightarrow> string" where
  "traceDirection opts =
     (case opt_direction opts of
        Some s \<Rightarrow> if s \<noteq> [] then s else ''both''
      | None \<Rightarrow> ''both'')"

text \<open>
  The graph literal of \<^verbatim>\<open>traceFromAddress\<close>; \<open>now\<close> is the text of
  \<^verbatim>\<open>new Date().toISOString()\<close>.
\<close>

definition newGraph :: "config \<Rightarrow> string \<Rightarrow> string \<Rightarrow> int \<Rightarrow> graph" where
  "newGraph cfg now address depth =
     \<lparr> nodes = [], edges = [], startAddress = address,
       metadata = \<lparr> meta_network = cfg_network cfg, meta_depth = depth,
                    meta_timestamp = now \<rparr> \<rparr>"

text \<open>
  \<^verbatim>\<open>traceFromAddress\<close>. The result is the formatted graph and the ledger state after the
  traversal, or the error that \<^verbatim>\<open>_validateAddress\<close> throws.
\<close>

definition traceFromAddress ::
    "(string \<Rightarrow> 'n option) \<Rightarrow> string \<Rightarrow> config \<Rightarrow> 'l ledger \<Rightarrow> 'l \<Rightarrow> string \<Rightarrow> options
       \<Rightarrow> error + (('n::{zero,plus}) formatted \<times> 'l)" where
  "traceFromAddress parseFloat now cfg fetch l address opts =
     (case validateAddress address of
        Inl err \<Rightarrow> Inl err
      | Inr _ \<Rightarrow>
          (let depth = traceDepth cfg opts;
               direction = traceDirection opts;
               graph = newGraph cfg now address depth
           in case traceRecursive cfg fetch address graph l 0 depth direction of
                (g, l') \<Rightarrow> Inr (formatGraph parseFloat g, l')))"

section \<open>Path Finder\<close>

text \<open>
  \<^verbatim>\<open>_findPaths\<close>, its \<^verbatim>\<open>for\<close> loop (\<open>findLoop\<close>) and the loop body (\<open>findStep\<close>).
  \<open>visited\<close> is the shared \<^verbatim>\<open>Set\<close> of lower-cased addresses and \<open>found\<close> the shared
  array \<^verbatim>\<open>paths\<close>; both are returned updated, with the ledger state. The cap on the number
  of paths is the literal \<^verbatim>\<open>10\<close> of the source.
\<close>

function findPaths ::
    "config \<Rightarrow> 'l ledger \<Rightarrow> string \<Rightarrow> string \<Rightarrow> string list \<Rightarrow> string set \<Rightarrow> string list list
       \<Rightarrow> 'l \<Rightarrow> int \<Rightarrow> int \<Rightarrow> string set \<times> string list list \<times> 'l"
  and findLoop ::
    "config \<Rightarrow> 'l ledger \<Rightarrow> string \<Rightarrow> string \<Rightarrow> string list \<Rightarrow> tx list \<Rightarrow> string set
       \<Rightarrow> string list list \<Rightarrow> 'l \<Rightarrow> int \<Rightarrow> int \<Rightarrow> string set \<times> string list list \<times> 'l"
  and findStep ::
    "config \<Rightarrow> 'l ledger \<Rightarrow> string \<Rightarrow> string \<Rightarrow> string list \<Rightarrow> tx \<Rightarrow> string set
       \<Rightarrow> string list list \<Rightarrow> 'l \<Rightarrow> int \<Rightarrow> int \<Rightarrow> string set \<times> string list list \<times> 'l"
where
  "findPaths cfg fetch current target path visited found l depth maxDepth =
     (if depth \<ge> maxDepth \<or> int (length found) \<ge> 10 then (visited, found, l)
      else if toLowerCase current = toLowerCase target then (visited, found @ [path], l)
      else
        (case fetch l current 1 of
           (Inl err, l1) \<Rightarrow>
             (insert (toLowerCase current) visited - {toLowerCase current}, found, l1)
         | (Inr transactions, l1) \<Rightarrow>
             (case findLoop cfg fetch current target path
                     (slice0 transactions (cfg_maxTransactionsForPaths cfg))
                     (insert (toLowerCase current) visited) found l1 depth maxDepth of
                (visited2, found2, l2) \<Rightarrow> (visited2 - {toLowerCase current}, found2, l2))))"
| "findLoop cfg fetch current target path [] visited found l depth maxDepth =
     (visited, found, l)"
| "findLoop cfg fetch current target path (x # xs) visited found l depth maxDepth =
     (case findStep cfg fetch current target path x visited found l depth maxDepth of
        (visited1, found1, l1) \<Rightarrow>
          findLoop cfg fetch current target path xs visited1 found1 l1 depth maxDepth)"
| "findStep cfg fetch current target path x visited found l depth maxDepth =
     (case (tx_from x, tx_to x) of
        (Some f, Some t) \<Rightarrow>
          if f \<noteq> [] \<and> toLowerCase f = toLowerCase current \<and> t \<noteq> [] then
            (if toLowerCase t \<notin> visited
             then findPaths cfg fetch t target (path @ [t]) visited found l (depth + 1) maxDepth
             else (visited, found, l))
          else (visited, found, l)
      | _ \<Rightarrow> (visited, found, l))"
  by pat_completeness auto
termination
  by (relation "measures
        [\<lambda>a. case a of
               Inl (cfg, fetch, c, tg, p, v, f, l, d, m) \<Rightarrow> 3 * nat (m - d)
             | Inr (Inl (cfg, fetch, c, tg, p, xs, v, f, l, d, m)) \<Rightarrow> 3 * nat (m - (d + 1)) + 2
             | Inr (Inr (cfg, fetch, c, tg, p, x, v, f, l, d, m)) \<Rightarrow> 3 * nat (m - (d + 1)) + 1,
         \<lambda>a. case a of
               Inr (Inl (cfg, fetch, c, tg, p, xs, v, f, l, d, m)) \<Rightarrow> length xs
             | _ \<Rightarrow> 0]")
     auto

declare findPaths.simps [simp del] findLoop.simps [simp del] findStep.simps [simp del]

definition tracePath ::
    "config \<Rightarrow> 'l ledger \<Rightarrow> 'l \<Rightarrow> string \<Rightarrow> string \<Rightarrow> error + (pathset \<times> 'l)" where
  "tracePath cfg fetch l fromAddress toAddress =
     (case validateAddress fromAddress of
        Inl err \<Rightarrow> Inl err
      | Inr _ \<Rightarrow>
          (case validateAddress toAddress of
             Inl err \<Rightarrow> Inl err
           | Inr _ \<Rightarrow>
               (case findPaths cfg fetch fromAddress toAddress [fromAddress] {} [] l 0 5 of
                  (visited, found, l') \<Rightarrow>
                    Inr (\<lparr> ps_from = fromAddress, ps_to = toAddress, ps_paths = found,
                           ps_pathCount = int (length found),
                           ps_network = cfg_network cfg \<rparr>, l'))))"

section \<open>Flow Aggregator\<close>

text \<open>The body of the \<^verbatim>\<open>forEach\<close> callback of \<^verbatim>\<open>_getAddressFlow\<close>.\<close>

definition flowStep :: "(string \<Rightarrow> 'n option) \<Rightarrow> string \<Rightarrow> ('n::{zero,plus}) flow \<Rightarrow> tx \<Rightarrow> 'n flow" where
  "flowStep parseFloat address fl x =
     (let fl1 =
        (if (case tx_to x of
               Some t \<Rightarrow> t \<noteq> [] \<and> toLowerCase t = toLowerCase address
             | None \<Rightarrow> False)
         then fl\<lparr> flow_incoming := flow_incoming fl @ [x],
                  flow_totalIn := flow_totalIn fl + orZero (parseFloat (tx_value x)) \<rparr>
         else fl)
      in
        (if (case tx_from x of
               Some f \<Rightarrow> f \<noteq> [] \<and> toLowerCase f = toLowerCase address
             | None \<Rightarrow> False)
         then fl1\<lparr> flow_outgoing := flow_outgoing fl1 @ [x],
                   flow_totalOut := flow_totalOut fl1 + orZero (parseFloat (tx_value x)) \<rparr>
         else fl1))"

definition getAddressFlow ::
    "(string \<Rightarrow> 'n option) \<Rightarrow> 'l ledger \<Rightarrow> 'l \<Rightarrow> string \<Rightarrow> int
       \<Rightarrow> ('n::{zero,plus,minus}) flow \<times> 'l" where
  "getAddressFlow parseFloat fetch l address depth =
     (let fl = \<lparr> flow_address = address, flow_incoming = [], flow_outgoing = [],
                  flow_totalIn = 0, flow_totalOut = 0, flow_transactionCount = 0,
                  flow_netFlow = None \<rparr>
      in case fetch l address depth of
           (Inl err, l1) \<Rightarrow> (fl, l1)
         | (Inr transactions, l1) \<Rightarrow>
             (let fl1 = foldl (flowStep parseFloat address) fl transactions;
                  fl2 = fl1\<lparr> flow_transactionCount := int (length transactions) \<rparr>
              in (fl2\<lparr> flow_netFlow := Some (flow_totalIn fl2 - flow_totalOut fl2) \<rparr>, l1)))"


section \<open>Graph Formatter\<close>

definition newline :: string where
  "newline = [CHR 0x0A]"

definition dquote :: string where
  "dquote = [CHR 0x22]"

text \<open>
  The text of a JavaScript number that holds an integer, as a template literal and
  \<^verbatim>\<open>JSON.stringify\<close> write it (decimal digits; the exponent form that JavaScript uses
  from \<open>10\<^sup>2\<^sup>1\<close> on is not modelled).
\<close>

definition digit :: "nat \<Rightarrow> char" where
  "digit d = ''0123456789'' ! d"

fun showNat :: "nat \<Rightarrow> string" where
  "showNat n = (if n < 10 then [digit n] else showNat (n div 10) @ [digit (n mod 10)])"

declare showNat.simps [simp del]

definition numberToString :: "int \<Rightarrow> string" where
  "numberToString i = (if i < 0 then ''-'' @ showNat (nat (- i)) else showNat (nat i))"

definition dotNode :: "node \<Rightarrow> string" where
  "dotNode n =
     (let label = take 10 (node_address n) @ ''...'';
          color = (if node_type n = ''origin'' then ''lightblue'' else ''lightgray'')
      in ''  '' @ dquote @ node_address n @ dquote @ '' [label='' @ dquote @ label @ dquote
         @ '', fillcolor='' @ color @ '', style=filled];'' @ newline)"

definition dotEdge :: "edge \<Rightarrow> string" where
  "dotEdge e =
     ''  '' @ dquote @ edge_from e @ dquote @ '' -> '' @ dquote @ edge_to e @ dquote
     @ '' [label='' @ dquote @ edge_value e @ dquote @ ''];'' @ newline"

definition exportToDot :: "'n formatted \<Rightarrow> string" where
  "exportToDot g =
     ''digraph TransactionFlow {'' @ newline
     @ ''  rankdir=LR;'' @ newline
     @ ''  node [shape=box, style=rounded];'' @ newline @ newline
     @ concat (map dotNode (fg_nodes g))
     @ newline
     @ concat (map dotEdge (fg_edges g))
     @ ''}'' @ newline"

definition csvRow :: "edge \<Rightarrow> string" where
  "csvRow e =
     edge_from e @ '','' @ edge_to e @ '','' @ edge_value e @ '','' @ edge_hash e @ '',''
     @ numberToString (edge_timestamp e) @ newline"

definition exportToCsv :: "'n formatted \<Rightarrow> string" where
  "exportToCsv g = ''From,To,Value,Hash,Timestamp'' @ newline @ concat (map csvRow (fg_edges g))"

subsection \<open>\<^verbatim>\<open>JSON.stringify(graph, null, 2)\<close>\<close>

text \<open>
  JSON values; \<open>JNum\<close> holds a number of the abstract type, \<open>JInt\<close> one that is an
  integer. \<open>jsonNumber\<close>, the JSON text of an abstract number, is a parameter.
\<close>

datatype 'n json =
    JNull
  | JBool bool
  | JInt int
  | JNum 'n
  | JStr string
  | JArr "'n json list"
  | JObj "(string \<times> 'n json) list"

definition hexDigit :: "nat \<Rightarrow> char" where
  "hexDigit d = ''0123456789abcdef'' ! d"

text \<open>\<open>QuoteJSONString\<close>: the escapes of one character, then of a string.\<close>

definition quoteChar :: "char \<Rightarrow> string" where
  "quoteChar c =
     (if c = CHR 0x22 then [CHR 0x5C, CHR 0x22]
      else if c = CHR 0x5C then [CHR 0x5C, CHR 0x5C]
      else if c = CHR 0x08 then [CHR 0x5C, CHR ''b'']
      else if c = CHR 0x09 then [CHR 0x5C, CHR ''t'']
      else if c = CHR 0x0A then [CHR 0x5C, CHR ''n'']
      else if c = CHR 0x0C then [CHR 0x5C, CHR ''f'']
      else if c = CHR 0x0D then [CHR 0x5C, CHR ''r'']
      else if (of_char c :: nat) < 0x20 then
        [CHR 0x5C, CHR ''u'', CHR ''0'', CHR ''0'',
         hexDigit (of_char c div 16), hexDigit (of_char c mod 16)]
      else [c])"

definition quoteJSONString :: "string \<Rightarrow> string" where
  "quoteJSONString s = dquote @ concat (map quoteChar s) @ dquote"

definition pad :: "nat \<Rightarrow> string" where
  "pad n = replicate n (CHR '' '')"

fun joinWith :: "string \<Rightarrow> string list \<Rightarrow> string" where
  "joinWith sep [] = []"
| "joinWith sep [x] = x"
| "joinWith sep (x # y # ys) = x @ sep @ joinWith sep (y # ys)"

fun stringify :: "('n \<Rightarrow> string) \<Rightarrow> nat \<Rightarrow> 'n json \<Rightarrow> string"
  and stringifyElems :: "('n \<Rightarrow> string) \<Rightarrow> nat \<Rightarrow> 'n json list \<Rightarrow> string list"
  and stringifyProps :: "('n \<Rightarrow> string) \<Rightarrow> nat \<Rightarrow> (string \<times> 'n json) list \<Rightarrow> string list"
where
  "stringify jsonNumber ind JNull = ''null''"
| "stringify jsonNumber ind (JBool b) = (if b then ''true'' else ''false'')"
| "stringify jsonNumber ind (JInt i) = numberToString i"
| "stringify jsonNumber ind (JNum v) = jsonNumber v"
| "stringify jsonNumber ind (JStr s) = quoteJSONString s"
| "stringify jsonNumber ind (JArr vs) =
     (if vs = [] then ''[]''
      else ''['' @ newline @ pad (ind + 2)
           @ joinWith ('','' @ newline @ pad (ind + 2)) (stringifyElems jsonNumber (ind + 2) vs)
           @ newline @ pad ind @ '']'')"
| "stringify jsonNumber ind (JObj kvs) =
     (if kvs = [] then ''{}''
      else ''{'' @ newline @ pad (ind + 2)
           @ joinWith ('','' @ newline @ pad (ind + 2)) (stringifyProps jsonNumber (ind + 2) kvs)
           @ newline @ pad ind @ ''}'')"
| "stringifyElems jsonNumber ind [] = []"
| "stringifyElems jsonNumber ind (v # vs) =
     stringify jsonNumber ind v # stringifyElems jsonNumber ind vs"
| "stringifyProps jsonNumber ind [] = []"
| "stringifyProps jsonNumber ind ((k, v) # kvs) =
     (quoteJSONString k @ '': '' @ stringify jsonNumber ind v)
     # stringifyProps jsonNumber ind kvs"

text \<open>
  The object that \<^verbatim>\<open>JSON.stringify\<close> walks: own properties in the order in which the
  object literals of \<^verbatim>\<open>_traceRecursive\<close>, \<^verbatim>\<open>traceFromAddress\<close> and \<^verbatim>\<open>_formatGraph\<close>
  create them.
\<close>

definition nodeJSON :: "node \<Rightarrow> 'n json" where
  "nodeJSON n =
     JObj [(''address'', JStr (node_address n)), (''depth'', JInt (node_depth n)),
           (''type'', JStr (node_type n))]"

definition edgeJSON :: "edge \<Rightarrow> 'n json" where
  "edgeJSON e =
     JObj [(''from'', JStr (edge_from e)), (''to'', JStr (edge_to e)),
           (''value'', JStr (edge_value e)), (''hash'', JStr (edge_hash e)),
           (''timestamp'', JInt (edge_timestamp e))]"

definition graphJSON :: "'n formatted \<Rightarrow> 'n json" where
  "graphJSON g =
     JObj [(''nodes'', JArr (map nodeJSON (fg_nodes g))),
           (''edges'', JArr (map edgeJSON (fg_edges g))),
           (''startAddress'', JStr (fg_startAddress g)),
           (''metadata'',
              JObj [(''network'', JStr (meta_network (fg_metadata g))),
                    (''depth'', JInt (meta_depth (fg_metadata g))),
                    (''timestamp'', JStr (meta_timestamp (fg_metadata g)))]),
           (''summary'',
              JObj [(''nodeCount'', JInt (nodeCount (fg_summary g))),
                    (''edgeCount'', JInt (edgeCount (fg_summary g))),
                    (''totalValue'', JNum (totalValue (fg_summary g)))])]"

text \<open>
  \<^verbatim>\<open>exportGraph(graph, format = 'json')\<close>: \<open>None\<close> is an omitted format, which takes the
  default.
\<close>

definition exportGraph :: "('n \<Rightarrow> string) \<Rightarrow> 'n formatted \<Rightarrow> string option \<Rightarrow> error + string" where
  "exportGraph jsonNumber g format =
     (let fmt = (case format of None \<Rightarrow> ''json'' | Some f \<Rightarrow> f) in
      if fmt = ''json'' then Inr (stringify jsonNumber 0 (graphJSON g))
      else if fmt = ''dot'' then Inr (exportToDot g)
      else if fmt = ''csv'' then Inr (exportToCsv g)
      else Inl (UnsupportedFormatError (''Unsupported format: '' @ fmt)))"

subsection \<open>\<^verbatim>\<open>JSON.parse\<close>\<close>

text \<open>
  The reader of JSON text that \<^verbatim>\<open>JSON.parse\<close> implements (ECMA-404): white space is
  space, tab, line feed and carriage return; a string has no raw control character and
  the escapes \<^verbatim>\<open>\" \\ \/ \b \f \n \r \t \uXXXX\<close>; a number is
  \<^verbatim>\<open>-?(0|[1-9][0-9]*)(\.[0-9]+)?([eE][+-]?[0-9]+)?\<close>. Characters are bytes here, so a
  \<^verbatim>\<open>\u\<close> escape above \<open>00ff\<close> is refused. A number text with no fraction and no
  exponent is read as \<open>JInt\<close>, any other through the parameter \<open>parseNumber\<close>. The
  properties of an object are kept in the order of the text.
\<close>

definition isWs :: "char \<Rightarrow> bool" where
  "isWs c = (c = CHR '' '' \<or> c = CHR 0x09 \<or> c = CHR 0x0A \<or> c = CHR 0x0D)"

definition skipWs :: "string \<Rightarrow> string" where
  "skipWs s = dropWhile isWs s"

definition isDigit :: "char \<Rightarrow> bool" where
  "isDigit c = (c \<in> set ''0123456789'')"

definition digitVal :: "char \<Rightarrow> nat" where
  "digitVal c = (of_char c :: nat) - 48"





definition readNat :: "string \<Rightarrow> nat" where
  "readNat ds = foldl (\<lambda>a c. 10 * a + digitVal c) 0 ds"





definition isNumChar :: "char \<Rightarrow> bool" where
  "isNumChar c = (c \<in> set ''+-.eE0123456789'')"

text \<open>
  The value of a number text, and a number at the head of a text: the longest run of
  number characters, which has to be a number of the grammar.
\<close>

definition readNumber :: "(string \<Rightarrow> 'n) \<Rightarrow> string \<Rightarrow> 'n json" where
  "readNumber parseNumber t =
     (if list_all isDigit t then JInt (int (readNat t))
      else if hd t = CHR ''-'' \<and> list_all isDigit (tl t) then JInt (- int (readNat (tl t)))
      else JNum (parseNumber t))"








fun allSome :: "'a option list \<Rightarrow> 'a list option" where
  "allSome [] = Some []"
| "allSome (x # xs) =
     (case x of
        None \<Rightarrow> None
      | Some y \<Rightarrow> (case allSome xs of None \<Rightarrow> None | Some ys \<Rightarrow> Some (y # ys)))"



section \<open>Notions used in the statements and proofs\<close>

text \<open>
  When the two blocks of the loop body fire: \<open>outMatch\<close> is the condition of the
  \<^verbatim>\<open>'out'\<close> block on a record, with the \<^verbatim>\<open>from\<close> and \<^verbatim>\<open>to\<close> it found, \<open>inMatch\<close>
  that of the \<^verbatim>\<open>'in'\<close> block.
\<close>

definition outMatch :: "string \<Rightarrow> string \<Rightarrow> tx \<Rightarrow> (string \<times> string) option" where
  "outMatch direction address x =
     (if direction = ''out'' \<or> direction = ''both'' then
        (case (tx_from x, tx_to x) of
           (Some f, Some t) \<Rightarrow>
             if f \<noteq> [] \<and> toLowerCase f = toLowerCase address \<and> t \<noteq> [] then Some (f, t)
             else None
         | _ \<Rightarrow> None)
      else None)"

definition inMatch :: "string \<Rightarrow> string \<Rightarrow> tx \<Rightarrow> (string \<times> string) option" where
  "inMatch direction address x =
     (if direction = ''in'' \<or> direction = ''both'' then
        (case (tx_to x, tx_from x) of
           (Some t, Some f) \<Rightarrow>
             if t \<noteq> [] \<and> toLowerCase t = toLowerCase address \<and> f \<noteq> [] then Some (f, t)
             else None
         | _ \<Rightarrow> None)
      else None)"

text \<open>The graph after \<^verbatim>\<open>graph.nodes.set\<close> on an address that the map does not have.\<close>

definition setNode :: "graph \<Rightarrow> string \<Rightarrow> int \<Rightarrow> graph" where
  "setNode g a d = g\<lparr>nodes := nodes g @ [(a, mkNode a d)]\<rparr>"

text \<open>
  \<open>grows d m g g'\<close>: \<open>g'\<close> is \<open>g\<close> with nodes and edges appended, every appended node
  being the node that \<^verbatim>\<open>_traceRecursive\<close> makes for its key, at a depth from \<open>d\<close> on
  and below \<open>m\<close>.
\<close>

definition grows :: "int \<Rightarrow> int \<Rightarrow> graph \<Rightarrow> graph \<Rightarrow> bool" where
  "grows d m g g' =
     (\<exists>ns es. g' = g\<lparr>nodes := nodes g @ ns, edges := edges g @ es\<rparr>
        \<and> (\<forall>(a, n) \<in> set ns. n = mkNode a (node_depth n) \<and> d \<le> node_depth n \<and> node_depth n < m))"



text \<open>A ledger that answers with no transactions wherever the given one fails.\<close>

definition emptyOnFailure :: "'l ledger \<Rightarrow> 'l ledger" where
  "emptyOnFailure fetch l a lim =
     (case fetch l a lim of (Inl err, l1) \<Rightarrow> (Inr [], l1) | (Inr txs, l1) \<Rightarrow> (Inr txs, l1))"

text \<open>A path is simple when no two of its addresses are equal after case folding.\<close>

definition simplePath :: "string list \<Rightarrow> bool" where
  "simplePath p = distinct (map toLowerCase p)"

definition isUnsupportedFormat :: "error + string \<Rightarrow> bool" where
  "isUnsupportedFormat r = (case r of Inl (UnsupportedFormatError msg) \<Rightarrow> True | _ \<Rightarrow> False)"

section \<open>Sample ledgers\<close>

text \<open>
  Ledgers on which the theorems below are run. Their state counts the fetches. The
  first has two transfers out of \<open>0xA\<close> and one into \<open>0xC\<close>, and fails for \<open>0xB\<close>; the
  second reports a transfer back to the seed, written in another letter case.
\<close>

definition transfer :: "string \<Rightarrow> string \<Rightarrow> string \<Rightarrow> tx" where
  "transfer h f t =
     \<lparr> tx_hash = h, tx_from = Some f, tx_to = Some t, tx_value = ''1.5'',
       tx_timestamp = 1700000000 \<rparr>"

definition sampleLedger :: "nat ledger" where
  "sampleLedger l a lim =
     (if a = ''0xA'' then Inr [transfer ''h1'' ''0xA'' ''0xB'', transfer ''h2'' ''0xA'' ''0xC'']
      else if a = ''0xB'' then Inl (FetchError ''unavailable'')
      else if a = ''0xC'' then Inr [transfer ''h3'' ''0xD'' ''0xC'']
      else Inr [],
      Suc l)"

definition caseLedger :: "nat ledger" where
  "caseLedger l a lim =
     (if a = ''0xAb'' then Inr [transfer ''h1'' ''0xab'' ''0xcd'']
      else if a = ''0xcd'' then Inr [transfer ''h2'' ''0xcd'' ''0xab'']
      else Inr [],
      Suc l)"

definition failingLedger :: "nat ledger" where
  "failingLedger l a lim = (Inl (FetchError ''unavailable''), Suc l)"

definition sampleParseFloat :: "string \<Rightarrow> int option" where
  "sampleParseFloat s = (if s = ''1.5'' then Some 2 else None)"

definition defaultConfig :: config where
  "defaultConfig =
     constructor \<lparr> arg_network = None, arg_maxDepth = None,
                   arg_maxTransactionsPerAddress = None, arg_maxTransactionsForPaths = None \<rparr>"

definition sampleOptions :: "int \<Rightarrow> string \<Rightarrow> options" where
  "sampleOptions d dir = \<lparr> opt_depth = Some d, opt_direction = Some dir \<rparr>"

text \<open>
  When the body of the loop of \<^verbatim>\<open>_findPaths\<close> recurses: the destination of an outgoing
  transaction of the current address that is not in the revisit set.
\<close>

definition nextHop :: "string \<Rightarrow> string set \<Rightarrow> tx \<Rightarrow> string option" where
  "nextHop current visited x =
     (case (tx_from x, tx_to x) of
        (Some f, Some t) \<Rightarrow>
          if f \<noteq> [] \<and> toLowerCase f = toLowerCase current \<and> t \<noteq> []
             \<and> toLowerCase t \<notin> visited
          then Some t else None
      | _ \<Rightarrow> None)"

text \<open>
  A ledger with a cycle between \<open>A\<close> and \<open>B\<close> (the way back written in lower case) and
  two ways from \<open>A\<close> to \<open>C\<close>, and a ledger in which every address pays \<open>M\<close>, \<open>N\<close> and,
  three times, the target \<open>T\<close>.
\<close>

definition pathLedger :: "nat ledger" where
  "pathLedger l a lim =
     (if a = ''A'' then Inr [transfer ''h1'' ''A'' ''C'', transfer ''h2'' ''A'' ''B'']
      else if a = ''B'' then Inr [transfer ''h3'' ''B'' ''a'', transfer ''h4'' ''B'' ''C'']
      else Inr [],
      Suc l)"



primrec reread :: "('n \<Rightarrow> string) \<Rightarrow> (string \<Rightarrow> 'n) \<Rightarrow> 'n json \<Rightarrow> 'n json" where
  "reread jsonNumber parseNumber JNull = JNull"
| "reread jsonNumber parseNumber (JBool b) = JBool b"
| "reread jsonNumber parseNumber (JInt i) = JInt i"
| "reread jsonNumber parseNumber (JNum v) =
     (if jsonNumber v = ''null'' then JNull else readNumber parseNumber (jsonNumber v))"
| "reread jsonNumber parseNumber (JStr s) = JStr s"
| "reread jsonNumber parseNumber (JArr vs) = JArr (map (reread jsonNumber parseNumber) vs)"
| "reread jsonNumber parseNumber (JObj kvs) =
     JObj (map (map_prod id (reread jsonNumber parseNumber)) kvs)"


text \<open>What may follow a value in a text: the end, or a character that no number has.\<close>

definition endsValue :: "string \<Rightarrow> bool" where
  "endsValue rest = (case rest of [] \<Rightarrow> True | c # cs \<Rightarrow> \<not> isNumChar c)"


text \<open>The graph that the first sample ledger yields from \<open>0xA\<close> at depth 3.\<close>

definition sampleGraph :: "int formatted" where
  "sampleGraph =
     \<lparr> fg_nodes = [mkNode ''0xA'' 0, mkNode ''0xB'' 1, mkNode ''0xC'' 1, mkNode ''0xD'' 2],
       fg_edges = [mkEdge ''0xA'' ''0xB'' (transfer ''h1'' ''0xA'' ''0xB''),
                   mkEdge ''0xA'' ''0xC'' (transfer ''h2'' ''0xA'' ''0xC''),
                   mkEdge ''0xD'' ''0xC'' (transfer ''h3'' ''0xD'' ''0xC'')],
       fg_startAddress = ''0xA'',
       fg_metadata = \<lparr> meta_network = ''ethereum'', meta_depth = 3, meta_timestamp = ''now'' \<rparr>,
       fg_summary = \<lparr> nodeCount = 4, edgeCount = 3, totalValue = 6 \<rparr> \<rparr>"


definition sampleOutGraph :: "int formatted" where
  "sampleOutGraph =
     \<lparr> fg_nodes = [mkNode ''0xA'' 0, mkNode ''0xB'' 1, mkNode ''0xC'' 1],
       fg_edges = [mkEdge ''0xA'' ''0xB'' (transfer ''h1'' ''0xA'' ''0xB''),
                   mkEdge ''0xA'' ''0xC'' (transfer ''h2'' ''0xA'' ''0xC'')],
       fg_startAddress = ''0xA'',
       fg_metadata = \<lparr> meta_network = ''ethereum'', meta_depth = 2, meta_timestamp = ''now'' \<rparr>,
       fg_summary = \<lparr> nodeCount = 3, edgeCount = 2, totalValue = 4 \<rparr> \<rparr>"

text \<open>The graph of the second sample ledger from \<open>0xAb\<close>.\<close>

definition caseGraph :: "int formatted" where
  "caseGraph =
     \<lparr> fg_nodes = [mkNode ''0xAb'' 0, mkNode ''0xcd'' 1, mkNode ''0xab'' 2],
       fg_edges = [mkEdge ''0xab'' ''0xcd'' (transfer ''h1'' ''0xab'' ''0xcd''),
                   mkEdge ''0xcd'' ''0xab'' (transfer ''h2'' ''0xcd'' ''0xab'')],
       fg_startAddress = ''0xAb'',
       fg_metadata = \<lparr> meta_network = ''ethereum'', meta_depth = 3, meta_timestamp = ''now'' \<rparr>,
       fg_summary = \<lparr> nodeCount = 3, edgeCount = 2, totalValue = 4 \<rparr> \<rparr>"

text \<open>The graph of the first sample ledger from \<open>0xA\<close> at depth 1.\<close>

definition danglingGraph :: "int formatted" where
  "danglingGraph =
     \<lparr> fg_nodes = [mkNode ''0xA'' 0],
       fg_edges = [mkEdge ''0xA'' ''0xB'' (transfer ''h1'' ''0xA'' ''0xB''),
                   mkEdge ''0xA'' ''0xC'' (transfer ''h2'' ''0xA'' ''0xC'')],
       fg_startAddress = ''0xA'',
       fg_metadata = \<lparr> meta_network = ''ethereum'', meta_depth = 1, meta_timestamp = ''now'' \<rparr>,
       fg_summary = \<lparr> nodeCount = 1, edgeCount = 2, totalValue = 4 \<rparr> \<rparr>"

text \<open>What \<^verbatim>\<open>tracePath\<close> returns on the two path ledgers.\<close>

definition pathResult :: pathset where
  "pathResult =
     \<lparr> ps_from = ''A'', ps_to = ''C'', ps_paths = [[''A'', ''C''], [''A'', ''B'', ''C'']],
       ps_pathCount = 2, ps_network = ''ethereum'' \<rparr>"


text \<open>The object that \<^verbatim>\<open>_getAddressFlow\<close> returns when the fetch fails.\<close>

definition failedFlow :: "string \<Rightarrow> ('n::zero) flow" where
  "failedFlow address =
     \<lparr> flow_address = address, flow_incoming = [], flow_outgoing = [],
       flow_totalIn = 0, flow_totalOut = 0, flow_transactionCount = 0,
       flow_netFlow = None \<rparr>"



section \<open>The traversal of the Graph Builder, case by case\<close>

lemma map_set_absent: "\<not> map_has m k \<Longrightarrow> map_set m k v = m @ [(k, v)]"
  by (simp add: map_set_def)

lemma map_has_iff: "map_has m k \<longleftrightarrow> k \<in> fst ` set m"
  by (simp add: map_has_def map_of_eq_None_iff)

lemma traceRecursive_stop:
  "m \<le> d \<or> map_has (nodes g) a \<Longrightarrow> traceRecursive cfg fetch a g l d m dir = (g, l)"
  by (subst traceRecursive.simps) auto

lemma traceRecursive_fail:
  "d < m \<Longrightarrow> \<not> map_has (nodes g) a \<Longrightarrow> fetch l a 1 = (Inl e, l1) \<Longrightarrow>
   traceRecursive cfg fetch a g l d m dir = (setNode g a d, l1)"
  by (subst traceRecursive.simps) (simp add: setNode_def map_set_absent)

lemma traceRecursive_loop:
  "d < m \<Longrightarrow> \<not> map_has (nodes g) a \<Longrightarrow> fetch l a 1 = (Inr txs, l1) \<Longrightarrow>
   traceRecursive cfg fetch a g l d m dir =
   traceLoop cfg fetch a (slice0 txs (cfg_maxTransactionsPerAddress cfg)) (setNode g a d) l1 d m dir"
  by (subst traceRecursive.simps) (simp add: setNode_def map_set_absent)

lemma traceOut_None:
  "outMatch dir a x = None \<Longrightarrow> traceOut cfg fetch a x g l d m dir = (g, l)"
  by (subst traceOut.simps) (auto simp: outMatch_def split: option.splits if_splits)

lemma traceOut_Some:
  "outMatch dir a x = Some (f, t) \<Longrightarrow>
   traceOut cfg fetch a x g l d m dir =
     (if d + 1 < m then traceRecursive cfg fetch t (pushEdge g (mkEdge f t x)) l (d + 1) m dir
      else (pushEdge g (mkEdge f t x), l))"
  by (subst traceOut.simps) (auto simp: outMatch_def split: option.splits if_splits)

lemma traceIn_None:
  "inMatch dir a x = None \<Longrightarrow> traceIn cfg fetch a x g l d m dir = (g, l)"
  by (subst traceIn.simps) (auto simp: inMatch_def split: option.splits if_splits)

lemma traceIn_Some:
  "inMatch dir a x = Some (f, t) \<Longrightarrow>
   traceIn cfg fetch a x g l d m dir =
     (if d + 1 < m then traceRecursive cfg fetch f (pushEdge g (mkEdge f t x)) l (d + 1) m dir
      else (pushEdge g (mkEdge f t x), l))"
  by (subst traceIn.simps) (auto simp: inMatch_def split: option.splits if_splits)

text \<open>
  The induction rule of the four functions, with the conditions of the source folded
  into \<open>outMatch\<close>, \<open>inMatch\<close> and \<open>setNode\<close>.
\<close>

lemma trace_induct [case_names Rec Nil Cons Out In]:
  assumes Rec: "\<And>cfg fetch a g l d m dir.
      (\<And>txs l1. d < m \<Longrightarrow> \<not> map_has (nodes g) a \<Longrightarrow> fetch l a 1 = (Inr txs, l1) \<Longrightarrow>
          Q cfg fetch a (slice0 txs (cfg_maxTransactionsPerAddress cfg)) (setNode g a d) l1 d m dir)
      \<Longrightarrow> P cfg fetch a g l d m dir"
    and Nil: "\<And>cfg fetch a g l d m dir. Q cfg fetch a [] g l d m dir"
    and Cons: "\<And>cfg fetch a x xs g l d m dir.
      R cfg fetch a x g l d m dir \<Longrightarrow>
      (\<And>g1 l1. traceOut cfg fetch a x g l d m dir = (g1, l1) \<Longrightarrow> S cfg fetch a x g1 l1 d m dir) \<Longrightarrow>
      (\<And>g1 l1 g2 l2. traceOut cfg fetch a x g l d m dir = (g1, l1) \<Longrightarrow>
          traceIn cfg fetch a x g1 l1 d m dir = (g2, l2) \<Longrightarrow> Q cfg fetch a xs g2 l2 d m dir) \<Longrightarrow>
      Q cfg fetch a (x # xs) g l d m dir"
    and Out: "\<And>cfg fetch a x g l d m dir.
      (\<And>f t. outMatch dir a x = Some (f, t) \<Longrightarrow> d + 1 < m \<Longrightarrow>
          P cfg fetch t (pushEdge g (mkEdge f t x)) l (d + 1) m dir) \<Longrightarrow>
      R cfg fetch a x g l d m dir"
    and In: "\<And>cfg fetch a x g l d m dir.
      (\<And>f t. inMatch dir a x = Some (f, t) \<Longrightarrow> d + 1 < m \<Longrightarrow>
          P cfg fetch f (pushEdge g (mkEdge f t x)) l (d + 1) m dir) \<Longrightarrow>
      S cfg fetch a x g l d m dir"
  shows "P cfg fetch a g l d m dir"
    and "Q cfg fetch a xs g l d m dir"
    and "R cfg fetch a x g l d m dir"
    and "S cfg fetch a x g l d m dir"
proof (induction cfg fetch a g l d m dir and cfg fetch a xs g l d m dir
         and cfg fetch a x g l d m dir and cfg fetch a x g l d m dir
       rule: traceRecursive_traceLoop_traceOut_traceIn.induct)
  case (1 cfg fetch address g l currentDepth maxDepth direction)
  show ?case
  proof (rule Rec)
    fix txs l1
    assume "currentDepth < maxDepth" "\<not> map_has (nodes g) address"
      "fetch l address 1 = (Inr txs, l1)"
    then show "Q cfg fetch address (slice0 txs (cfg_maxTransactionsPerAddress cfg))
                 (setNode g address currentDepth) l1 currentDepth maxDepth direction"
      using 1 by (simp add: setNode_def map_set_absent)
  qed
next
  case 2
  show ?case by (rule Nil)
next
  case (3 cfg fetch address x xs g l currentDepth maxDepth direction)
  show ?case
  proof (rule Cons)
    show "R cfg fetch address x g l currentDepth maxDepth direction" by (rule 3(1))
  next
    fix g1 l1
    assume "traceOut cfg fetch address x g l currentDepth maxDepth direction = (g1, l1)"
    then show "S cfg fetch address x g1 l1 currentDepth maxDepth direction"
      using 3(2) by simp
  next
    fix g1 l1 g2 l2
    assume "traceOut cfg fetch address x g l currentDepth maxDepth direction = (g1, l1)"
      "traceIn cfg fetch address x g1 l1 currentDepth maxDepth direction = (g2, l2)"
    then show "Q cfg fetch address xs g2 l2 currentDepth maxDepth direction"
      using 3(3) by simp
  qed
next
  case (4 cfg fetch address x g l currentDepth maxDepth direction)
  show ?case
  proof (rule Out)
    fix f t
    assume "outMatch direction address x = Some (f, t)" "currentDepth + 1 < maxDepth"
    then show "P cfg fetch t (pushEdge g (mkEdge f t x)) l (currentDepth + 1) maxDepth direction"
      using 4 by (auto simp: outMatch_def split: if_splits option.splits)
  qed
next
  case (5 cfg fetch address x g l currentDepth maxDepth direction)
  show ?case
  proof (rule In)
    fix f t
    assume "inMatch direction address x = Some (f, t)" "currentDepth + 1 < maxDepth"
    then show "P cfg fetch f (pushEdge g (mkEdge f t x)) l (currentDepth + 1) maxDepth direction"
      using 5 by (auto simp: inMatch_def split: if_splits option.splits)
  qed
qed

lemma traceLoop_Cons:
  "traceOut cfg fetch a x g l d m dir = (g1, l1) \<Longrightarrow>
   traceIn cfg fetch a x g1 l1 d m dir = (g2, l2) \<Longrightarrow>
   traceLoop cfg fetch a (x # xs) g l d m dir = traceLoop cfg fetch a xs g2 l2 d m dir"
  by (simp add: traceLoop.simps)

lemma traceRecursive_cases [case_names Stop Fail Loop]:
  obtains
    (Stop) "m \<le> d \<or> map_has (nodes g) a"
      "traceRecursive cfg fetch a g l d m dir = (g, l)"
  | (Fail) e l1 where "d < m" "\<not> map_has (nodes g) a" "fetch l a 1 = (Inl e, l1)"
      "traceRecursive cfg fetch a g l d m dir = (setNode g a d, l1)"
  | (Loop) txs l1 where "d < m" "\<not> map_has (nodes g) a" "fetch l a 1 = (Inr txs, l1)"
      "traceRecursive cfg fetch a g l d m dir =
         traceLoop cfg fetch a (slice0 txs (cfg_maxTransactionsPerAddress cfg))
           (setNode g a d) l1 d m dir"
proof (cases "m \<le> d \<or> map_has (nodes g) a")
  case True
  then show ?thesis by (rule Stop) (rule traceRecursive_stop [OF True])
next
  case False
  then have dm: "d < m" and nh: "\<not> map_has (nodes g) a" by auto
  obtain r l1 where f: "fetch l a 1 = (r, l1)" by (cases "fetch l a 1")
  show ?thesis
  proof (cases r)
    case (Inl e)
    with f have fe: "fetch l a 1 = (Inl e, l1)" by simp
    have "traceRecursive cfg fetch a g l d m dir = (setNode g a d, l1)"
      using dm nh fe by (rule traceRecursive_fail)
    with dm nh fe show ?thesis by (rule Fail)
  next
    case (Inr txs)
    with f have fe: "fetch l a 1 = (Inr txs, l1)" by simp
    have "traceRecursive cfg fetch a g l d m dir =
            traceLoop cfg fetch a (slice0 txs (cfg_maxTransactionsPerAddress cfg))
              (setNode g a d) l1 d m dir"
      using dm nh fe by (rule traceRecursive_loop)
    with dm nh fe show ?thesis by (rule Loop)
  qed
qed

lemma traceOut_cases [case_names None Last Follow]:
  obtains
    (None) "outMatch dir a x = None" "traceOut cfg fetch a x g l d m dir = (g, l)"
  | (Last) f t where "outMatch dir a x = Some (f, t)" "\<not> d + 1 < m"
      "traceOut cfg fetch a x g l d m dir = (pushEdge g (mkEdge f t x), l)"
  | (Follow) f t where "outMatch dir a x = Some (f, t)" "d + 1 < m"
      "traceOut cfg fetch a x g l d m dir =
         traceRecursive cfg fetch t (pushEdge g (mkEdge f t x)) l (d + 1) m dir"
proof (cases "outMatch dir a x")
  case None
  then show ?thesis by (rule that(1)) (rule traceOut_None [OF None])
next
  case (Some ft)
  obtain f t where "ft = (f, t)" by (cases ft)
  with Some have om: "outMatch dir a x = Some (f, t)" by simp
  show ?thesis
  proof (cases "d + 1 < m")
    case True
    with om show ?thesis using that(3) by (simp add: traceOut_Some)
  next
    case False
    with om show ?thesis using that(2) by (simp add: traceOut_Some)
  qed
qed

lemma traceIn_cases [case_names None Last Follow]:
  obtains
    (None) "inMatch dir a x = None" "traceIn cfg fetch a x g l d m dir = (g, l)"
  | (Last) f t where "inMatch dir a x = Some (f, t)" "\<not> d + 1 < m"
      "traceIn cfg fetch a x g l d m dir = (pushEdge g (mkEdge f t x), l)"
  | (Follow) f t where "inMatch dir a x = Some (f, t)" "d + 1 < m"
      "traceIn cfg fetch a x g l d m dir =
         traceRecursive cfg fetch f (pushEdge g (mkEdge f t x)) l (d + 1) m dir"
proof (cases "inMatch dir a x")
  case None
  then show ?thesis by (rule that(1)) (rule traceIn_None [OF None])
next
  case (Some ft)
  obtain f t where "ft = (f, t)" by (cases ft)
  with Some have om: "inMatch dir a x = Some (f, t)" by simp
  show ?thesis
  proof (cases "d + 1 < m")
    case True
    with om show ?thesis using that(3) by (simp add: traceIn_Some)
  next
    case False
    with om show ?thesis using that(2) by (simp add: traceIn_Some)
  qed
qed

lemma traceLoop_cases [case_names Loop]:
  obtains g1 l1 g2 l2 where
    "traceOut cfg fetch a x g l d m dir = (g1, l1)"
    "traceIn cfg fetch a x g1 l1 d m dir = (g2, l2)"
    "traceLoop cfg fetch a (x # xs) g l d m dir = traceLoop cfg fetch a xs g2 l2 d m dir"
proof -
  obtain g1 l1 where out: "traceOut cfg fetch a x g l d m dir = (g1, l1)"
    by (cases "traceOut cfg fetch a x g l d m dir")
  obtain g2 l2 where inn: "traceIn cfg fetch a x g1 l1 d m dir = (g2, l2)"
    by (cases "traceIn cfg fetch a x g1 l1 d m dir")
  from out inn traceLoop_Cons [OF out inn] show ?thesis by (rule that)
qed

subsection \<open>The graph only grows\<close>

lemma grows_refl: "grows d m g g"
  unfolding grows_def by (rule exI [of _ "[]"], rule exI [of _ "[]"]) simp

lemma grows_trans: "grows d m g g' \<Longrightarrow> grows d m g' g'' \<Longrightarrow> grows d m g g''"
  unfolding grows_def by (elim exE conjE) (auto intro!: exI)

lemma grows_le: "grows d m g g' \<Longrightarrow> d' \<le> d \<Longrightarrow> grows d' m g g'"
  unfolding grows_def by fastforce

lemma grows_pushEdge: "grows d m g (pushEdge g e)"
  unfolding grows_def pushEdge_def by (rule exI [of _ "[]"], rule exI [of _ "[e]"]) simp

lemma grows_setNode: "d' \<le> d \<Longrightarrow> d < m \<Longrightarrow> grows d' m g (setNode g a d)"
  unfolding grows_def setNode_def
  by (rule exI [of _ "[(a, mkNode a d)]"], rule exI [of _ "[]"]) (simp add: mkNode_def)

lemma trace_grows:
  "grows d m g (fst (traceRecursive cfg fetch a g l d m dir))"
  "grows (d + 1) m g (fst (traceLoop cfg fetch a xs g l d m dir))"
  "grows (d + 1) m g (fst (traceOut cfg fetch a x g l d m dir))"
  "grows (d + 1) m g (fst (traceIn cfg fetch a x g l d m dir))"
proof (induction cfg fetch a g l d m dir and cfg fetch a xs g l d m dir
         and cfg fetch a x g l d m dir and cfg fetch a x g l d m dir
       rule: trace_induct)
  case (Rec cfg fetch a g l d m dir)
  show ?case
  proof (cases rule: traceRecursive_cases [of m d g a cfg fetch l dir])
    case Stop
    then show ?thesis by (simp add: grows_refl)
  next
    case (Fail e l1)
    then show ?thesis by (simp add: grows_setNode)
  next
    case (Loop txs l1)
    from Rec [OF Loop(1-3)] have "grows d m (setNode g a d)
        (fst (traceLoop cfg fetch a (slice0 txs (cfg_maxTransactionsPerAddress cfg))
                (setNode g a d) l1 d m dir))"
      by (rule grows_le) simp
    with Loop show ?thesis
      using grows_setNode [of d d m g a] by (auto intro: grows_trans)
  qed
next
  case (Nil cfg fetch a g l d m dir)
  show ?case by (simp add: traceLoop.simps grows_refl)
next
  case (Cons cfg fetch a x xs g l d m dir)
  obtain g1 l1 g2 l2 where
    out: "traceOut cfg fetch a x g l d m dir = (g1, l1)" and
    inn: "traceIn cfg fetch a x g1 l1 d m dir = (g2, l2)" and
    eq: "traceLoop cfg fetch a (x # xs) g l d m dir = traceLoop cfg fetch a xs g2 l2 d m dir"
    by (rule traceLoop_cases)
  have "grows (d + 1) m g g1" using Cons(1) out by simp
  moreover have "grows (d + 1) m g1 g2" using Cons(2) [OF out] inn by simp
  moreover note Cons(3) [OF out inn]
  ultimately show ?case
    by (simp add: eq) (blast intro: grows_trans)
next
  case (Out cfg fetch a x g l d m dir)
  show ?case
  proof (cases rule: traceOut_cases [of dir a x cfg fetch g l d m])
    case None
    then show ?thesis by (simp add: grows_refl)
  next
    case (Last f t)
    then show ?thesis by (simp add: grows_pushEdge)
  next
    case (Follow f t)
    with Out [OF Follow(1,2)] show ?thesis
      using grows_pushEdge [of "d + 1" m g "mkEdge f t x"] by (auto intro: grows_trans)
  qed
next
  case (In cfg fetch a x g l d m dir)
  show ?case
  proof (cases rule: traceIn_cases [of dir a x cfg fetch g l d m])
    case None
    then show ?thesis by (simp add: grows_refl)
  next
    case (Last f t)
    then show ?thesis by (simp add: grows_pushEdge)
  next
    case (Follow f t)
    with In [OF Follow(1,2)] show ?thesis
      using grows_pushEdge [of "d + 1" m g "mkEdge f t x"] by (auto intro: grows_trans)
  qed
qed


subsection \<open>Keys of the node map stay distinct\<close>

lemma distinct_setNode:
  "\<not> map_has (nodes g) a \<Longrightarrow> distinct (map fst (nodes g)) \<Longrightarrow>
   distinct (map fst (nodes (setNode g a d)))"
  by (auto simp: setNode_def map_has_iff)

lemma nodes_pushEdge [simp]: "nodes (pushEdge g e) = nodes g"
  by (simp add: pushEdge_def)

lemma trace_distinct:
  "distinct (map fst (nodes g)) \<Longrightarrow>
     distinct (map fst (nodes (fst (traceRecursive cfg fetch a g l d m dir))))"
  "distinct (map fst (nodes g)) \<Longrightarrow>
     distinct (map fst (nodes (fst (traceLoop cfg fetch a xs g l d m dir))))"
  "distinct (map fst (nodes g)) \<Longrightarrow>
     distinct (map fst (nodes (fst (traceOut cfg fetch a x g l d m dir))))"
  "distinct (map fst (nodes g)) \<Longrightarrow>
     distinct (map fst (nodes (fst (traceIn cfg fetch a x g l d m dir))))"
proof (induction cfg fetch a g l d m dir and cfg fetch a xs g l d m dir
         and cfg fetch a x g l d m dir and cfg fetch a x g l d m dir
       rule: trace_induct)
  case (Rec cfg fetch a g l d m dir)
  show ?case
  proof (cases rule: traceRecursive_cases [of m d g a cfg fetch l dir])
    case Stop
    with Rec(2) show ?thesis by simp
  next
    case (Fail e l1)
    with Rec(2) show ?thesis by (simp add: distinct_setNode)
  next
    case (Loop txs l1)
    with Rec(1) [OF Loop(1-3)] Rec(2) show ?thesis by (simp add: distinct_setNode)
  qed
next
  case (Nil cfg fetch a g l d m dir)
  then show ?case by (simp add: traceLoop.simps)
next
  case (Cons cfg fetch a x xs g l d m dir)
  obtain g1 l1 g2 l2 where
    out: "traceOut cfg fetch a x g l d m dir = (g1, l1)" and
    inn: "traceIn cfg fetch a x g1 l1 d m dir = (g2, l2)" and
    eq: "traceLoop cfg fetch a (x # xs) g l d m dir = traceLoop cfg fetch a xs g2 l2 d m dir"
    by (rule traceLoop_cases)
  have "distinct (map fst (nodes g1))" using Cons(1) [OF Cons(4)] out by simp
  then have "distinct (map fst (nodes g2))" using Cons(2) [OF out] inn by simp
  then show ?case using Cons(3) [OF out inn] by (simp add: eq)
next
  case (Out cfg fetch a x g l d m dir)
  show ?case
  proof (cases rule: traceOut_cases [of dir a x cfg fetch g l d m])
    case None
    with Out(2) show ?thesis by simp
  next
    case (Last f t)
    with Out(2) show ?thesis by simp
  next
    case (Follow f t)
    with Out(1) [OF Follow(1,2)] Out(2) show ?thesis by simp
  qed
next
  case (In cfg fetch a x g l d m dir)
  show ?case
  proof (cases rule: traceIn_cases [of dir a x cfg fetch g l d m])
    case None
    with In(2) show ?thesis by simp
  next
    case (Last f t)
    with In(2) show ?thesis by simp
  next
    case (Follow f t)
    with In(1) [OF Follow(1,2)] In(2) show ?thesis by simp
  qed
qed


subsection \<open>Edges stay anchored at visited addresses\<close>



lemma inMatch_out [simp]: "inMatch ''out'' a x = None"
  by (simp add: inMatch_def)

lemma outMatch_in [simp]: "outMatch ''in'' a x = None"
  by (simp add: outMatch_def)





lemma map_has_setNode [simp]: "map_has (nodes (setNode g a d)) a"
  by (simp add: setNode_def map_has_iff)



subsection \<open>A failed fetch counts as an empty answer\<close>

lemma slice0_Nil [simp]: "slice0 [] n = []"
  by (simp add: slice0_def)

lemma trace_emptyOnFailure:
  "traceRecursive cfg (emptyOnFailure fetch) a g l d m dir = traceRecursive cfg fetch a g l d m dir"
  "traceLoop cfg (emptyOnFailure fetch) a xs g l d m dir = traceLoop cfg fetch a xs g l d m dir"
  "traceOut cfg (emptyOnFailure fetch) a x g l d m dir = traceOut cfg fetch a x g l d m dir"
  "traceIn cfg (emptyOnFailure fetch) a x g l d m dir = traceIn cfg fetch a x g l d m dir"
proof (induction cfg fetch a g l d m dir and cfg fetch a xs g l d m dir
         and cfg fetch a x g l d m dir and cfg fetch a x g l d m dir
       rule: trace_induct)
  case (Rec cfg fetch a g l d m dir)
  show ?case
  proof (cases rule: traceRecursive_cases [of m d g a cfg fetch l dir])
    case Stop
    then show ?thesis by (simp add: traceRecursive_stop)
  next
    case (Fail e l1)
    then have "emptyOnFailure fetch l a 1 = (Inr [], l1)" by (simp add: emptyOnFailure_def)
    with Fail(1,2) have "traceRecursive cfg (emptyOnFailure fetch) a g l d m dir =
        traceLoop cfg (emptyOnFailure fetch) a (slice0 [] (cfg_maxTransactionsPerAddress cfg))
          (setNode g a d) l1 d m dir"
      by (rule traceRecursive_loop)
    with Fail(4) show ?thesis by (simp add: traceLoop.simps)
  next
    case (Loop txs l1)
    then have "emptyOnFailure fetch l a 1 = (Inr txs, l1)" by (simp add: emptyOnFailure_def)
    with Loop(1,2) have "traceRecursive cfg (emptyOnFailure fetch) a g l d m dir =
        traceLoop cfg (emptyOnFailure fetch) a (slice0 txs (cfg_maxTransactionsPerAddress cfg))
          (setNode g a d) l1 d m dir"
      by (rule traceRecursive_loop)
    with Loop(4) Rec [OF Loop(1-3)] show ?thesis by simp
  qed
next
  case (Nil cfg fetch a g l d m dir)
  show ?case by (simp add: traceLoop.simps)
next
  case (Cons cfg fetch a x xs g l d m dir)
  obtain g1 l1 g2 l2 where
    out: "traceOut cfg fetch a x g l d m dir = (g1, l1)" and
    inn: "traceIn cfg fetch a x g1 l1 d m dir = (g2, l2)" and
    eq: "traceLoop cfg fetch a (x # xs) g l d m dir = traceLoop cfg fetch a xs g2 l2 d m dir"
    by (rule traceLoop_cases)
  have "traceLoop cfg (emptyOnFailure fetch) a (x # xs) g l d m dir =
        traceLoop cfg (emptyOnFailure fetch) a xs g2 l2 d m dir"
    using Cons(1) Cons(2) [OF out] out inn by (intro traceLoop_Cons) simp_all
  with Cons(3) [OF out inn] eq show ?case by simp
next
  case (Out cfg fetch a x g l d m dir)
  show ?case
  proof (cases rule: traceOut_cases [of dir a x cfg fetch g l d m])
    case None
    then show ?thesis by (simp add: traceOut_None)
  next
    case (Last f t)
    then show ?thesis by (simp add: traceOut_Some)
  next
    case (Follow f t)
    with Out [OF Follow(1,2)] show ?thesis by (simp add: traceOut_Some)
  qed
next
  case (In cfg fetch a x g l d m dir)
  show ?case
  proof (cases rule: traceIn_cases [of dir a x cfg fetch g l d m])
    case None
    then show ?thesis by (simp add: traceIn_None)
  next
    case (Last f t)
    then show ?thesis by (simp add: traceIn_Some)
  next
    case (Follow f t)
    with In [OF Follow(1,2)] show ?thesis by (simp add: traceIn_Some)
  qed
qed


subsection \<open>The nodes of a traversal from the empty graph\<close>

lemma growsE:
  assumes "grows d m g g'"
  obtains ns es where "nodes g' = nodes g @ ns" "edges g' = edges g @ es"
    "startAddress g' = startAddress g" "metadata g' = metadata g"
    "\<And>a n. (a, n) \<in> set ns \<Longrightarrow> n = mkNode a (node_depth n) \<and> d \<le> node_depth n \<and> node_depth n < m"
proof -
  from assms obtain ns es where g: "g' = g\<lparr>nodes := nodes g @ ns, edges := edges g @ es\<rparr>"
    and ns: "\<forall>(a, n) \<in> set ns. n = mkNode a (node_depth n) \<and> d \<le> node_depth n \<and> node_depth n < m"
    unfolding grows_def by blast
  show ?thesis
  proof (rule that [of ns es])
    fix a n assume "(a, n) \<in> set ns"
    with ns show "n = mkNode a (node_depth n) \<and> d \<le> node_depth n \<and> node_depth n < m"
      by blast
  qed (simp_all add: g)
qed

lemma trace_top:
  assumes "nodes g0 = []"
  shows "(k \<le> 0 \<and> nodes (fst (traceRecursive cfg fetch seed g0 l 0 k dir)) = []) \<or>
         (0 < k \<and> (\<exists>ns. nodes (fst (traceRecursive cfg fetch seed g0 l 0 k dir))
                          = (seed, mkNode seed 0) # ns
                \<and> (\<forall>(a, n) \<in> set ns. n = mkNode a (node_depth n) \<and> 1 \<le> node_depth n
                       \<and> node_depth n < k \<and> a \<noteq> seed)))"
proof (cases rule: traceRecursive_cases [of k 0 g0 seed cfg fetch l dir])
  case Stop
  with assms show ?thesis by (simp add: map_has_iff)
next
  case (Fail e l1)
  with assms show ?thesis by (simp add: setNode_def)
next
  case (Loop txs l1)
  define g1 where "g1 = setNode g0 seed 0"
  define g where "g = fst (traceLoop cfg fetch seed (slice0 txs (cfg_maxTransactionsPerAddress cfg)) g1 l1 0 k dir)"
  have n1: "nodes g1 = [(seed, mkNode seed 0)]" using assms by (simp add: g1_def setNode_def)
  have "grows (0 + 1) k g1 g" unfolding g_def by (rule trace_grows(2))
  then obtain ns es where g: "nodes g = nodes g1 @ ns"
    and ns: "\<And>a n. (a, n) \<in> set ns \<Longrightarrow> n = mkNode a (node_depth n) \<and> 0 + 1 \<le> node_depth n \<and> node_depth n < k"
    by (rule growsE) blast
  have "distinct (map fst (nodes g1))" by (simp add: n1)
  then have "distinct (map fst (nodes g))" unfolding g_def by (rule trace_distinct(2))
  then have ns2: "seed \<notin> fst ` set ns" by (simp add: g n1)
  have "\<forall>(a, n) \<in> set ns. n = mkNode a (node_depth n) \<and> 1 \<le> node_depth n
                       \<and> node_depth n < k \<and> a \<noteq> seed"
  proof (clarify, intro conjI)
    fix a n assume an: "(a, n) \<in> set ns"
    from ns [OF an] show "n = mkNode a (node_depth n)" "1 \<le> node_depth n" "node_depth n < k"
      by simp_all
    from an ns2 show "a \<noteq> seed" by force
  qed
  moreover have "nodes g = (seed, mkNode seed 0) # ns" by (simp add: g n1)
  ultimately have "\<exists>ns. nodes g = (seed, mkNode seed 0) # ns
      \<and> (\<forall>(a, n) \<in> set ns. n = mkNode a (node_depth n) \<and> 1 \<le> node_depth n
                       \<and> node_depth n < k \<and> a \<noteq> seed)"
    by blast
  moreover have "traceRecursive cfg fetch seed g0 l 0 k dir =
      traceLoop cfg fetch seed (slice0 txs (cfg_maxTransactionsPerAddress cfg)) g1 l1 0 k dir"
    unfolding g1_def by (rule Loop(4))
  ultimately show ?thesis using Loop(1) by (simp add: g_def)
qed


subsection \<open>The entry point\<close>

lemma traceFromAddress_Inr:
  assumes "traceFromAddress parseFloat now cfg fetch l seed opts = Inr (r, l')"
  shows "seed \<noteq> []"
    and "r = formatGraph parseFloat
               (fst (traceRecursive cfg fetch seed
                       (newGraph cfg now seed (traceDepth cfg opts)) l 0
                       (traceDepth cfg opts) (traceDirection opts)))"
  using assms
  by (auto simp: traceFromAddress_def validateAddress_def Let_def split: if_splits prod.splits)

lemma traceFromAddress_valid:
  "seed \<noteq> [] \<Longrightarrow>
   traceFromAddress parseFloat now cfg fetch l seed opts =
     Inr (formatGraph parseFloat
            (fst (traceRecursive cfg fetch seed (newGraph cfg now seed (traceDepth cfg opts)) l 0
                    (traceDepth cfg opts) (traceDirection opts))),
          snd (traceRecursive cfg fetch seed (newGraph cfg now seed (traceDepth cfg opts)) l 0
                 (traceDepth cfg opts) (traceDirection opts)))"
  by (simp add: traceFromAddress_def validateAddress_def Let_def split: prod.splits)

lemma fg_nodes_formatGraph [simp]: "fg_nodes (formatGraph pf g) = map snd (nodes g)"
  by (simp add: formatGraph_def map_values_def)

lemma fg_edges_formatGraph [simp]: "fg_edges (formatGraph pf g) = edges g"
  by (simp add: formatGraph_def)

lemma nodes_newGraph [simp]: "nodes (newGraph cfg now a d) = []"
  by (simp add: newGraph_def)

lemma edges_newGraph [simp]: "edges (newGraph cfg now a d) = []"
  by (simp add: newGraph_def)




subsection \<open>The last level of a traversal\<close>

lemma edges_pushEdge [simp]: "edges (pushEdge g e) = edges g @ [e]"
  by (simp add: pushEdge_def)

lemma traceLoop_last:
  assumes "\<not> d + 1 < m"
  shows "nodes (fst (traceLoop cfg fetch a xs g l d m dir)) = nodes g
       \<and> (\<forall>x \<in> set xs. \<forall>f t. outMatch dir a x = Some (f, t) \<or> inMatch dir a x = Some (f, t)
             \<longrightarrow> mkEdge f t x \<in> set (edges (fst (traceLoop cfg fetch a xs g l d m dir))))
       \<and> set (edges g) \<subseteq> set (edges (fst (traceLoop cfg fetch a xs g l d m dir)))"
proof (induction xs arbitrary: g l)
  case Nil
  show ?case by (simp add: traceLoop.simps)
next
  case (Cons x xs)
  obtain g1 l1 g2 l2 where
    out: "traceOut cfg fetch a x g l d m dir = (g1, l1)" and
    inn: "traceIn cfg fetch a x g1 l1 d m dir = (g2, l2)" and
    eq: "traceLoop cfg fetch a (x # xs) g l d m dir = traceLoop cfg fetch a xs g2 l2 d m dir"
    by (rule traceLoop_cases)
  have o: "nodes g1 = nodes g \<and> set (edges g) \<subseteq> set (edges g1)
           \<and> (\<forall>f t. outMatch dir a x = Some (f, t) \<longrightarrow> mkEdge f t x \<in> set (edges g1))"
    using out assms by (cases rule: traceOut_cases [of dir a x cfg fetch g l d m]) auto
  have i: "nodes g2 = nodes g1 \<and> set (edges g1) \<subseteq> set (edges g2)
           \<and> (\<forall>f t. inMatch dir a x = Some (f, t) \<longrightarrow> mkEdge f t x \<in> set (edges g2))"
    using inn assms by (cases rule: traceIn_cases [of dir a x cfg fetch g1 l1 d m]) auto
  from Cons [of g2 l2] o i show ?case
    unfolding eq by (simp add: subset_iff)
qed


section \<open>Properties of the Graph Builder\<close>

text \<open>
  Claim C5. In the graph that \<^verbatim>\<open>traceFromAddress\<close> returns for a traversal with maximal
  depth \<open>k\<close> (\<open>traceDepth cfg opts\<close>), every node has a depth from 0 up to, and not
  including, \<open>k\<close>; the node of the seed address has depth 0 and type \<open>origin\<close>; every other
  node has type \<open>intermediary\<close>; and for a positive \<open>k\<close> the seed has a node.
\<close>

theorem depth_bound:
  assumes "traceFromAddress parseFloat now cfg fetch l seed opts = Inr (r, l')"
  shows "(\<forall>n \<in> set (fg_nodes r).
            0 \<le> node_depth n \<and> node_depth n < traceDepth cfg opts
          \<and> (node_address n = seed \<longrightarrow> node_depth n = 0 \<and> node_type n = ''origin'')
          \<and> (node_address n \<noteq> seed \<longrightarrow> node_type n = ''intermediary''))
       \<and> (0 < traceDepth cfg opts \<longrightarrow> (\<exists>n \<in> set (fg_nodes r). node_address n = seed))"
proof -
  define k where "k = traceDepth cfg opts"
  define g where "g = fst (traceRecursive cfg fetch seed (newGraph cfg now seed k) l 0 k
                             (traceDirection opts))"
  have r: "fg_nodes r = map snd (nodes g)"
    using traceFromAddress_Inr(2) [OF assms] by (simp add: g_def k_def)
  have "(k \<le> 0 \<and> nodes g = []) \<or>
        (0 < k \<and> (\<exists>ns. nodes g = (seed, mkNode seed 0) # ns
            \<and> (\<forall>(a, n) \<in> set ns. n = mkNode a (node_depth n) \<and> 1 \<le> node_depth n
                   \<and> node_depth n < k \<and> a \<noteq> seed)))"
    unfolding g_def by (rule trace_top) simp
  then show ?thesis
  proof (elim disjE conjE exE)
    assume "k \<le> 0" "nodes g = []"
    then show ?thesis by (simp add: r k_def)
  next
    fix ns
    assume k: "0 < k" and ng: "nodes g = (seed, mkNode seed 0) # ns"
      and ns: "\<forall>(a, n) \<in> set ns. n = mkNode a (node_depth n) \<and> 1 \<le> node_depth n
                   \<and> node_depth n < k \<and> a \<noteq> seed"
    have "0 \<le> node_depth n \<and> node_depth n < k
          \<and> (node_address n = seed \<longrightarrow> node_depth n = 0 \<and> node_type n = ''origin'')
          \<and> (node_address n \<noteq> seed \<longrightarrow> node_type n = ''intermediary'')"
      if "n \<in> set (fg_nodes r)" for n
    proof (cases "n = mkNode seed 0")
      case True
      with k show ?thesis by (simp add: mkNode_def)
    next
      case False
      with that r ng obtain a where an: "(a, n) \<in> set ns" by auto
      with ns have n: "n = mkNode a (node_depth n)" and d: "1 \<le> node_depth n" "node_depth n < k"
        and a: "a \<noteq> seed" by auto
      from n have "node_address n = a" and "node_type n = ''intermediary''"
        using d by (auto simp: mkNode_def split: if_splits
                      dest: arg_cong [of _ _ node_address] arg_cong [of _ _ node_type])
      with d a show ?thesis by simp
    qed
    moreover have "\<exists>n \<in> set (fg_nodes r). node_address n = seed"
      by (rule bexI [of _ "mkNode seed 0"]) (simp_all add: r ng mkNode_def)
    ultimately show ?thesis by (simp add: k_def)
  qed
qed


text \<open>The theorem on the first sample ledger, at depth 3.\<close>

theorem depth_bound_witness:
  "traceFromAddress sampleParseFloat ''now'' defaultConfig sampleLedger 0 ''0xA''
     (sampleOptions 3 ''both'') = Inr (sampleGraph, 4)
   \<and> node_depth (mkNode ''0xD'' 2) < traceDepth defaultConfig (sampleOptions 3 ''both'')
   \<and> node_type (mkNode ''0xD'' 2) = ''intermediary''
   \<and> node_depth (mkNode ''0xA'' 0) = 0 \<and> node_type (mkNode ''0xA'' 0) = ''origin''"
proof -
  have run: "traceFromAddress sampleParseFloat ''now'' defaultConfig sampleLedger 0 ''0xA''
     (sampleOptions 3 ''both'') = Inr (sampleGraph, 4)"
    by code_simp
  have d: "mkNode ''0xD'' 2 \<in> set (fg_nodes sampleGraph)"
    and a: "mkNode ''0xA'' 0 \<in> set (fg_nodes sampleGraph)"
    by (simp_all add: sampleGraph_def)
  have nd: "node_address (mkNode ''0xD'' 2) \<noteq> ''0xA''"
    and na: "node_address (mkNode ''0xA'' 0) = ''0xA''"
    by (simp_all add: mkNode_def)
  from depth_bound [OF run] d a nd na run show ?thesis by blast
qed




text \<open>
  Claim C7. A ledger fetch that fails during a traversal is not fatal: for a non-empty
  seed address \<^verbatim>\<open>traceFromAddress\<close> returns a graph, whatever the ledger does, and the
  result (graph and ledger state) is the one obtained from the ledger that answers with
  no transactions wherever the given ledger fails. So the failing address keeps its node
  and contributes no edge, and every other address contributes what it would have.
\<close>

theorem fetch_failure_not_fatal:
  assumes "seed \<noteq> []"
  shows "(\<exists>r l'. traceFromAddress parseFloat now cfg fetch l seed opts = Inr (r, l'))
       \<and> traceFromAddress parseFloat now cfg fetch l seed opts
           = traceFromAddress parseFloat now cfg (emptyOnFailure fetch) l seed opts"
  using assms by (simp add: traceFromAddress_valid trace_emptyOnFailure(1))

text \<open>
  The theorem on the first sample ledger, whose fetch fails for \<open>0xB\<close>: the graph has the
  nodes of \<open>0xA\<close>, \<open>0xB\<close> and \<open>0xC\<close> and both edges.
\<close>

theorem fetch_failure_not_fatal_witness:
  "fst (sampleLedger 1 ''0xB'' 1) = Inl (FetchError ''unavailable'')
   \<and> traceFromAddress sampleParseFloat ''now'' defaultConfig sampleLedger 0 ''0xA''
       (sampleOptions 2 ''out'') = Inr (sampleOutGraph, 3)
   \<and> traceFromAddress sampleParseFloat ''now'' defaultConfig (emptyOnFailure sampleLedger) 0
       ''0xA'' (sampleOptions 2 ''out'') = Inr (sampleOutGraph, 3)"
proof -
  have run: "traceFromAddress sampleParseFloat ''now'' defaultConfig sampleLedger 0 ''0xA''
       (sampleOptions 2 ''out'') = Inr (sampleOutGraph, 3)"
    by code_simp
  have ne: "''0xA'' \<noteq> []" by simp
  have fail: "fst (sampleLedger 1 ''0xB'' 1) = Inl (FetchError ''unavailable'')"
    by (simp add: sampleLedger_def)
  from fetch_failure_not_fatal [OF ne, of sampleParseFloat "''now''" defaultConfig sampleLedger 0
      "sampleOptions 2 ''out''"] run fail
  show ?thesis by simp
qed


text \<open>
  Claim C10. An edge of the returned graph may end at an address that has no node. When
  an address is expanded at depth \<open>maxDepth - 1\<close>, every transaction among those taken
  that qualifies for the direction gets its edge, and the only node added is the one of
  the expanded address itself: the far endpoints are not inserted.
\<close>

theorem far_endpoint_without_node:
  assumes "d < m" and "\<not> d + 1 < m" and "\<not> map_has (nodes g) a"
    and "fetch l a 1 = (Inr txs, l1)"
    and "x \<in> set (slice0 txs (cfg_maxTransactionsPerAddress cfg))"
    and "outMatch dir a x = Some (f, t) \<or> inMatch dir a x = Some (f, t)"
  shows "mkEdge f t x \<in> set (edges (fst (traceRecursive cfg fetch a g l d m dir)))
       \<and> nodes (fst (traceRecursive cfg fetch a g l d m dir)) = nodes g @ [(a, mkNode a d)]"
proof -
  have "traceRecursive cfg fetch a g l d m dir =
          traceLoop cfg fetch a (slice0 txs (cfg_maxTransactionsPerAddress cfg))
            (setNode g a d) l1 d m dir"
    using assms(1,3,4) by (rule traceRecursive_loop)
  with traceLoop_last [OF assms(2), of cfg fetch a
      "slice0 txs (cfg_maxTransactionsPerAddress cfg)" "setNode g a d" l1 dir] assms(5,6)
  show ?thesis by (auto simp: setNode_def)
qed

text \<open>
  The theorem on the first sample ledger at maximal depth 1: the graph from \<open>0xA\<close> has
  the edge to \<open>0xB\<close> and the single node of \<open>0xA\<close>.
\<close>

theorem far_endpoint_without_node_witness:
  "mkEdge ''0xA'' ''0xB'' (transfer ''h1'' ''0xA'' ''0xB'')
     \<in> set (edges (fst (traceRecursive defaultConfig sampleLedger ''0xA''
                           (newGraph defaultConfig ''now'' ''0xA'' 1) 0 0 1 ''out'')))
   \<and> nodes (fst (traceRecursive defaultConfig sampleLedger ''0xA''
                   (newGraph defaultConfig ''now'' ''0xA'' 1) 0 0 1 ''out''))
       = [(''0xA'', mkNode ''0xA'' 0)]
   \<and> traceFromAddress sampleParseFloat ''now'' defaultConfig sampleLedger 0 ''0xA''
       (sampleOptions 1 ''out'') = Inr (danglingGraph, 1)"
proof -
  have 1: "(0::int) < 1" and 2: "\<not> (0::int) + 1 < 1" by simp_all
  have 3: "\<not> map_has (nodes (newGraph defaultConfig ''now'' ''0xA'' 1)) ''0xA''"
    by (simp add: map_has_def)
  have 4: "sampleLedger 0 ''0xA'' 1 =
      (Inr [transfer ''h1'' ''0xA'' ''0xB'', transfer ''h2'' ''0xA'' ''0xC''], 1)"
    by (simp add: sampleLedger_def)
  have 5: "transfer ''h1'' ''0xA'' ''0xB''
      \<in> set (slice0 [transfer ''h1'' ''0xA'' ''0xB'', transfer ''h2'' ''0xA'' ''0xC'']
                (cfg_maxTransactionsPerAddress defaultConfig))"
    by (simp add: slice0_def defaultConfig_def constructor_def)
  have 6: "outMatch ''out'' ''0xA'' (transfer ''h1'' ''0xA'' ''0xB'') = Some (''0xA'', ''0xB'')
         \<or> inMatch ''out'' ''0xA'' (transfer ''h1'' ''0xA'' ''0xB'') = Some (''0xA'', ''0xB'')"
    by (simp add: outMatch_def transfer_def)
  have run: "traceFromAddress sampleParseFloat ''now'' defaultConfig sampleLedger 0 ''0xA''
       (sampleOptions 1 ''out'') = Inr (danglingGraph, 1)"
    by code_simp
  from far_endpoint_without_node
      [where fetch = sampleLedger and l = 0 and a = "''0xA''", OF 1 2 3 4 5 6] run
  show ?thesis by simp
qed


text \<open>
  Claim C1 does not hold of the code. The node map is keyed by the address string as
  given, while transactions are matched after case folding: from the seed \<open>0xAb\<close>, over
  a ledger that writes the same address as \<open>0xab\<close>, the graph gets a node for \<open>0xAb\<close> and
  a node for \<open>0xab\<close>.
\<close>

theorem case_variant_gets_second_node:
  "traceFromAddress sampleParseFloat ''now'' defaultConfig caseLedger 0 ''0xAb''
     (sampleOptions 3 ''out'') = Inr (caseGraph, 3)
   \<and> map (\<lambda>n. toLowerCase (node_address n)) (fg_nodes caseGraph) = [''0xab'', ''0xcd'', ''0xab'']"
proof -
  have "traceFromAddress sampleParseFloat ''now'' defaultConfig caseLedger 0 ''0xAb''
     (sampleOptions 3 ''out'') = Inr (caseGraph, 3)"
    by code_simp
  moreover have "map (\<lambda>n. toLowerCase (node_address n)) (fg_nodes caseGraph)
      = [''0xab'', ''0xcd'', ''0xab'']"
    by (simp add: caseGraph_def mkNode_def toLowerCase_def lower_char_def)
  ultimately show ?thesis by simp
qed


section \<open>The search of the Path Finder, case by case\<close>

lemma findPaths_stop:
  "maxDepth \<le> depth \<or> 10 \<le> int (length found) \<Longrightarrow>
   findPaths cfg fetch current target path visited found l depth maxDepth = (visited, found, l)"
  by (subst findPaths.simps) simp

lemma findPaths_hit:
  "\<not> (maxDepth \<le> depth \<or> 10 \<le> int (length found)) \<Longrightarrow>
   toLowerCase current = toLowerCase target \<Longrightarrow>
   findPaths cfg fetch current target path visited found l depth maxDepth
     = (visited, found @ [path], l)"
  by (subst findPaths.simps) simp

lemma findPaths_fail:
  "\<not> (maxDepth \<le> depth \<or> 10 \<le> int (length found)) \<Longrightarrow>
   toLowerCase current \<noteq> toLowerCase target \<Longrightarrow> fetch l current 1 = (Inl e, l1) \<Longrightarrow>
   findPaths cfg fetch current target path visited found l depth maxDepth
     = (insert (toLowerCase current) visited - {toLowerCase current}, found, l1)"
  by (subst findPaths.simps) simp

lemma findPaths_loop:
  "\<not> (maxDepth \<le> depth \<or> 10 \<le> int (length found)) \<Longrightarrow>
   toLowerCase current \<noteq> toLowerCase target \<Longrightarrow> fetch l current 1 = (Inr txs, l1) \<Longrightarrow>
   findLoop cfg fetch current target path (slice0 txs (cfg_maxTransactionsForPaths cfg))
     (insert (toLowerCase current) visited) found l1 depth maxDepth = (visited2, found2, l2) \<Longrightarrow>
   findPaths cfg fetch current target path visited found l depth maxDepth
     = (visited2 - {toLowerCase current}, found2, l2)"
  by (subst findPaths.simps) simp

lemma findStep_None:
  "nextHop current visited x = None \<Longrightarrow>
   findStep cfg fetch current target path x visited found l depth maxDepth = (visited, found, l)"
  by (subst findStep.simps) (auto simp: nextHop_def split: option.splits if_splits)

lemma findStep_Some:
  "nextHop current visited x = Some t \<Longrightarrow>
   findStep cfg fetch current target path x visited found l depth maxDepth
     = findPaths cfg fetch t target (path @ [t]) visited found l (depth + 1) maxDepth"
  by (subst findStep.simps) (auto simp: nextHop_def split: option.splits if_splits)

lemma findLoop_Cons:
  "findStep cfg fetch current target path x visited found l depth maxDepth = (visited1, found1, l1)
   \<Longrightarrow> findLoop cfg fetch current target path (x # xs) visited found l depth maxDepth
     = findLoop cfg fetch current target path xs visited1 found1 l1 depth maxDepth"
  by (simp add: findLoop.simps)

lemma find_induct [case_names Paths Nil Cons Step]:
  assumes Paths: "\<And>cfg fetch current target path visited found l depth maxDepth.
      (\<And>txs l1. \<not> (maxDepth \<le> depth \<or> 10 \<le> int (length found)) \<Longrightarrow>
          toLowerCase current \<noteq> toLowerCase target \<Longrightarrow> fetch l current 1 = (Inr txs, l1) \<Longrightarrow>
          Q cfg fetch current target path (slice0 txs (cfg_maxTransactionsForPaths cfg))
            (insert (toLowerCase current) visited) found l1 depth maxDepth)
      \<Longrightarrow> P cfg fetch current target path visited found l depth maxDepth"
    and Nil: "\<And>cfg fetch current target path visited found l depth maxDepth.
      Q cfg fetch current target path [] visited found l depth maxDepth"
    and Cons: "\<And>cfg fetch current target path x xs visited found l depth maxDepth.
      R cfg fetch current target path x visited found l depth maxDepth \<Longrightarrow>
      (\<And>visited1 found1 l1.
          findStep cfg fetch current target path x visited found l depth maxDepth
            = (visited1, found1, l1) \<Longrightarrow>
          Q cfg fetch current target path xs visited1 found1 l1 depth maxDepth) \<Longrightarrow>
      Q cfg fetch current target path (x # xs) visited found l depth maxDepth"
    and Step: "\<And>cfg fetch current target path x visited found l depth maxDepth.
      (\<And>t. nextHop current visited x = Some t \<Longrightarrow>
          P cfg fetch t target (path @ [t]) visited found l (depth + 1) maxDepth) \<Longrightarrow>
      R cfg fetch current target path x visited found l depth maxDepth"
  shows "P cfg fetch current target path visited found l depth maxDepth"
    and "Q cfg fetch current target path xs visited found l depth maxDepth"
    and "R cfg fetch current target path x visited found l depth maxDepth"
proof (induction cfg fetch current target path visited found l depth maxDepth
         and cfg fetch current target path xs visited found l depth maxDepth
         and cfg fetch current target path x visited found l depth maxDepth
       rule: findPaths_findLoop_findStep.induct)
  case (1 cfg fetch current target path visited found l depth maxDepth)
  show ?case
  proof (rule Paths)
    fix txs l1
    assume "\<not> (maxDepth \<le> depth \<or> 10 \<le> int (length found))"
      "toLowerCase current \<noteq> toLowerCase target" "fetch l current 1 = (Inr txs, l1)"
    then show "Q cfg fetch current target path (slice0 txs (cfg_maxTransactionsForPaths cfg))
                 (insert (toLowerCase current) visited) found l1 depth maxDepth"
      using 1 by simp
  qed
next
  case 2
  show ?case by (rule Nil)
next
  case (3 cfg fetch current target path x xs visited found l depth maxDepth)
  show ?case
  proof (rule Cons)
    show "R cfg fetch current target path x visited found l depth maxDepth" by (rule 3(1))
  next
    fix visited1 found1 l1
    assume "findStep cfg fetch current target path x visited found l depth maxDepth
              = (visited1, found1, l1)"
    then show "Q cfg fetch current target path xs visited1 found1 l1 depth maxDepth"
      using 3(2) by simp
  qed
next
  case (4 cfg fetch current target path x visited found l depth maxDepth)
  show ?case
  proof (rule Step)
    fix t
    assume "nextHop current visited x = Some t"
    then show "P cfg fetch t target (path @ [t]) visited found l (depth + 1) maxDepth"
      using 4 by (auto simp: nextHop_def split: if_splits option.splits)
  qed
qed

lemma findPaths_cases [case_names Stop Hit Fail Loop]:
  obtains
    (Stop) "maxDepth \<le> depth \<or> 10 \<le> int (length found)"
      "findPaths cfg fetch current target path visited found l depth maxDepth = (visited, found, l)"
  | (Hit) "\<not> (maxDepth \<le> depth \<or> 10 \<le> int (length found))"
      "toLowerCase current = toLowerCase target"
      "findPaths cfg fetch current target path visited found l depth maxDepth
         = (visited, found @ [path], l)"
  | (Fail) e l1 where "\<not> (maxDepth \<le> depth \<or> 10 \<le> int (length found))"
      "toLowerCase current \<noteq> toLowerCase target" "fetch l current 1 = (Inl e, l1)"
      "findPaths cfg fetch current target path visited found l depth maxDepth
         = (insert (toLowerCase current) visited - {toLowerCase current}, found, l1)"
  | (Loop) txs l1 visited2 found2 l2 where
      "\<not> (maxDepth \<le> depth \<or> 10 \<le> int (length found))"
      "toLowerCase current \<noteq> toLowerCase target" "fetch l current 1 = (Inr txs, l1)"
      "findLoop cfg fetch current target path (slice0 txs (cfg_maxTransactionsForPaths cfg))
         (insert (toLowerCase current) visited) found l1 depth maxDepth = (visited2, found2, l2)"
      "findPaths cfg fetch current target path visited found l depth maxDepth
         = (visited2 - {toLowerCase current}, found2, l2)"
proof (cases "maxDepth \<le> depth \<or> 10 \<le> int (length found)")
  case True
  then show ?thesis by (rule Stop) (rule findPaths_stop [OF True])
next
  case ng: False
  show ?thesis
  proof (cases "toLowerCase current = toLowerCase target")
    case True
    with ng show ?thesis by (rule Hit) (rule findPaths_hit [OF ng True])
  next
    case nt: False
    obtain r l1 where f: "fetch l current 1 = (r, l1)" by (cases "fetch l current 1")
    show ?thesis
    proof (cases r)
      case (Inl e)
      with f have fe: "fetch l current 1 = (Inl e, l1)" by simp
      have "findPaths cfg fetch current target path visited found l depth maxDepth
         = (insert (toLowerCase current) visited - {toLowerCase current}, found, l1)"
        using ng nt fe by (rule findPaths_fail)
      with ng nt fe show ?thesis by (rule Fail)
    next
      case (Inr txs)
      with f have fe: "fetch l current 1 = (Inr txs, l1)" by simp
      obtain visited2 found2 l2 where
        lp: "findLoop cfg fetch current target path (slice0 txs (cfg_maxTransactionsForPaths cfg))
          (insert (toLowerCase current) visited) found l1 depth maxDepth = (visited2, found2, l2)"
        by (cases "findLoop cfg fetch current target path
              (slice0 txs (cfg_maxTransactionsForPaths cfg))
              (insert (toLowerCase current) visited) found l1 depth maxDepth")
      have "findPaths cfg fetch current target path visited found l depth maxDepth
         = (visited2 - {toLowerCase current}, found2, l2)"
        using ng nt fe lp by (rule findPaths_loop)
      with ng nt fe lp show ?thesis by (rule Loop)
    qed
  qed
qed

subsection \<open>The cap on the number of paths\<close>


subsection \<open>Simple paths\<close>

lemma find_simple:
  "path \<noteq> [] \<Longrightarrow> last path = current \<Longrightarrow> simplePath path \<Longrightarrow>
   toLowerCase ` set (butlast path) \<subseteq> visited \<Longrightarrow> toLowerCase current \<notin> visited \<Longrightarrow>
   \<forall>p \<in> set found. simplePath p \<Longrightarrow>
     fst (findPaths cfg fetch current target path visited found l depth maxDepth) = visited
   \<and> (\<forall>p \<in> set (fst (snd (findPaths cfg fetch current target path visited found l depth maxDepth))).
         simplePath p)"
  "simplePath path \<Longrightarrow> toLowerCase ` set path \<subseteq> visited \<Longrightarrow>
   \<forall>p \<in> set found. simplePath p \<Longrightarrow>
     fst (findLoop cfg fetch current target path xs visited found l depth maxDepth) = visited
   \<and> (\<forall>p \<in> set (fst (snd (findLoop cfg fetch current target path xs visited found l depth maxDepth))).
         simplePath p)"
  "simplePath path \<Longrightarrow> toLowerCase ` set path \<subseteq> visited \<Longrightarrow>
   \<forall>p \<in> set found. simplePath p \<Longrightarrow>
     fst (findStep cfg fetch current target path x visited found l depth maxDepth) = visited
   \<and> (\<forall>p \<in> set (fst (snd (findStep cfg fetch current target path x visited found l depth maxDepth))).
         simplePath p)"
proof (induction cfg fetch current target path visited found l depth maxDepth
         and cfg fetch current target path xs visited found l depth maxDepth
         and cfg fetch current target path x visited found l depth maxDepth
       rule: find_induct)
  case (Paths cfg fetch current target path visited found l depth maxDepth)
  have restore: "insert (toLowerCase current) visited - {toLowerCase current} = visited"
    using Paths(6) by auto
  have allv: "toLowerCase ` set path \<subseteq> insert (toLowerCase current) visited"
  proof -
    have "set path = insert (last path) (set (butlast path))"
      using Paths(2) by (metis append_butlast_last_id list.set(2) rotate1.simps(2) set_rotate1)
    with Paths(3,5) show ?thesis by auto
  qed
  show ?case
  proof (cases rule: findPaths_cases
      [of maxDepth depth found cfg fetch current target path visited l])
    case Stop
    with Paths(7) show ?thesis by simp
  next
    case Hit
    with Paths(4,7) show ?thesis by simp
  next
    case (Fail e l1)
    with Paths(7) restore show ?thesis by simp
  next
    case (Loop txs l1 visited2 found2 l2)
    with Paths(1) [OF Loop(1-3) Paths(4) allv Paths(7)] restore show ?thesis by simp
  qed
next
  case (Nil cfg fetch current target path visited found l depth maxDepth)
  then show ?case by (simp add: findLoop.simps)
next
  case (Cons cfg fetch current target path x xs visited found l depth maxDepth)
  obtain visited1 found1 l1 where
    st: "findStep cfg fetch current target path x visited found l depth maxDepth
           = (visited1, found1, l1)"
    by (cases "findStep cfg fetch current target path x visited found l depth maxDepth")
  have v: "visited1 = visited" and f: "\<forall>p \<in> set found1. simplePath p"
    using Cons(1) [OF Cons(3-5)] st by simp_all
  from Cons(2) [OF st Cons(3)] Cons(4) v f show ?case
    by (simp add: findLoop_Cons [OF st])
next
  case (Step cfg fetch current target path x visited found l depth maxDepth)
  show ?case
  proof (cases "nextHop current visited x")
    case None
    with Step(4) show ?thesis by (simp add: findStep_None)
  next
    case (Some t)
    then have nt: "toLowerCase t \<notin> visited"
      by (auto simp: nextHop_def split: option.splits if_splits)
    have "simplePath (path @ [t])"
      using Step(2,3) nt by (auto simp: simplePath_def)
    with Step(1) [OF Some, of] Step(3,4) nt Some show ?thesis
      by (simp add: findStep_Some)
  qed
qed


section \<open>Properties of the Path Finder\<close>

lemma tracePath_Inr:
  assumes "tracePath cfg fetch l fromAddress toAddress = Inr (r, l')"
  shows "ps_paths r = fst (snd (findPaths cfg fetch fromAddress toAddress [fromAddress] {} [] l 0 5))"
    and "ps_pathCount r = int (length (ps_paths r))"
  using assms
  by (auto simp: tracePath_def validateAddress_def split: if_splits prod.splits)




text \<open>
  Claim C4. Every path that \<^verbatim>\<open>tracePath\<close> returns is simple: no two of its addresses
  are equal after case folding. The search keeps the revisit set equal to the case-folded
  addresses of the path before the current one (\<open>find_simple\<close>): the current address is
  added before its transactions are followed, a destination in the set is not followed,
  and the address is removed when the loop is over.
\<close>

theorem paths_simple:
  assumes "tracePath cfg fetch l fromAddress toAddress = Inr (r, l')"
  shows "\<forall>p \<in> set (ps_paths r). distinct (map toLowerCase p)"
proof -
  have "fst (findPaths cfg fetch fromAddress toAddress [fromAddress] {} [] l 0 5) = {}
      \<and> (\<forall>p \<in> set (fst (snd (findPaths cfg fetch fromAddress toAddress [fromAddress] {} [] l 0 5))).
            simplePath p)"
    by (rule find_simple(1)) (simp_all add: simplePath_def)
  then show ?thesis
    by (simp add: tracePath_Inr(1) [OF assms] simplePath_def)
qed

text \<open>
  The theorem on the ledger with a cycle: the way back from \<open>B\<close> to \<open>a\<close> is not taken.
\<close>

theorem paths_simple_witness:
  "tracePath defaultConfig pathLedger 0 ''A'' ''C'' = Inr (pathResult, 2)
   \<and> distinct (map toLowerCase [''A'', ''B'', ''C''])"
proof -
  have run: "tracePath defaultConfig pathLedger 0 ''A'' ''C'' = Inr (pathResult, 2)"
    by code_simp
  have "[''A'', ''B'', ''C''] \<in> set (ps_paths pathResult)"
    by (simp add: pathResult_def)
  with paths_simple [OF run] run show ?thesis by blast
qed

section \<open>Properties of the Flow Aggregator\<close>

lemma getAddressFlow_failure:
  "fetch l address depth = (Inl e, l1) \<Longrightarrow>
   getAddressFlow parseFloat fetch l address depth = (failedFlow address, l1)"
  by (simp add: getAddressFlow_def failedFlow_def)

lemma getAddressFlow_success:
  "fetch l address depth = (Inr txs, l1) \<Longrightarrow>
   flow_netFlow (fst (getAddressFlow parseFloat fetch l address depth))
     = Some (flow_totalIn (fst (getAddressFlow parseFloat fetch l address depth))
             - flow_totalOut (fst (getAddressFlow parseFloat fetch l address depth)))"
  by (simp add: getAddressFlow_def Let_def)

text \<open>
  Claim C2 does not hold of the code in its last part. When the fetch fails,
  \<^verbatim>\<open>_getAddressFlow\<close> returns the object as its literal made it: empty lists and zero
  totals and count, and no \<^verbatim>\<open>netFlow\<close> property at all, since the assignment of
  \<^verbatim>\<open>netFlow\<close> is inside the \<^verbatim>\<open>try\<close> block, after the fetch. Here the ledger fails
  for every address.
\<close>

theorem failed_flow_has_no_netFlow:
  "getAddressFlow sampleParseFloat failingLedger 0 ''0xA'' 2
     = (\<lparr> flow_address = ''0xA'', flow_incoming = [], flow_outgoing = [],
          flow_totalIn = 0, flow_totalOut = 0, flow_transactionCount = 0,
          flow_netFlow = None \<rparr>, 1)"
  by (simp add: getAddressFlow_def failingLedger_def)

section \<open>Properties of the Graph Formatter\<close>

text \<open>
  Claim C8. \<^verbatim>\<open>exportGraph\<close> fails with the unsupported-format error exactly when the
  format token is none of \<open>json\<close>, \<open>dot\<close> and \<open>csv\<close>; for these three it returns a text,
  as it does when the format is omitted. The result is either the error or the whole
  text.
\<close>

theorem unsupported_format:
  "(isUnsupportedFormat (exportGraph jsonNumber g (Some fmt))
      \<longleftrightarrow> fmt \<notin> {''json'', ''dot'', ''csv''})
   \<and> (fmt \<in> {''json'', ''dot'', ''csv''} \<longrightarrow>
        (\<exists>text. exportGraph jsonNumber g (Some fmt) = Inr text))
   \<and> (\<exists>text. exportGraph jsonNumber g None = Inr text)"
  by (auto simp: exportGraph_def isUnsupportedFormat_def)

text \<open>The theorem on the graph of the first sample ledger, for \<open>csv\<close> and for \<open>xml\<close>.\<close>

theorem unsupported_format_witness:
  "exportGraph numberToString sampleOutGraph (Some ''csv'')
     = Inr (exportToCsv sampleOutGraph)
   \<and> exportGraph numberToString sampleOutGraph (Some ''xml'')
     = Inl (UnsupportedFormatError ''Unsupported format: xml'')
   \<and> isUnsupportedFormat (exportGraph numberToString sampleOutGraph (Some ''xml''))
   \<and> \<not> isUnsupportedFormat (exportGraph numberToString sampleOutGraph (Some ''csv''))"
proof -
  have csv: "''csv'' \<in> {''json'', ''dot'', ''csv''}" and xml: "''xml'' \<notin> {''json'', ''dot'', ''csv''}"
    by simp_all
  from unsupported_format [of numberToString sampleOutGraph "''csv''"] csv
  have 1: "\<not> isUnsupportedFormat (exportGraph numberToString sampleOutGraph (Some ''csv''))"
    by blast
  from unsupported_format [of numberToString sampleOutGraph "''xml''"] xml
  have 2: "isUnsupportedFormat (exportGraph numberToString sampleOutGraph (Some ''xml''))"
    by blast
  have 3: "exportGraph numberToString sampleOutGraph (Some ''csv'')
     = Inr (exportToCsv sampleOutGraph)"
    by (simp add: exportGraph_def)
  have 4: "exportGraph numberToString sampleOutGraph (Some ''xml'')
     = Inl (UnsupportedFormatError ''Unsupported format: xml'')"
    by (simp add: exportGraph_def)
  from 1 2 3 4 show ?thesis by simp
qed


section \<open>Reading back the JSON text\<close>

subsection \<open>White space\<close>



lemma skipWs_Cons: "\<not> isWs c \<Longrightarrow> skipWs (c # s) = c # s"
  by (simp add: skipWs_def)

lemma skipWs_Nil [simp]: "skipWs [] = []"
  by (simp add: skipWs_def)

subsection \<open>Strings\<close>






subsection \<open>Integers\<close>










subsection \<open>Numbers\<close>









subsection \<open>Values\<close>




















lemma endsValue_simps [simp]:
  "endsValue []" "endsValue (newline @ s)" "endsValue (CHR '','' # s)"
  by (simp_all add: endsValue_def newline_def isNumChar_def)

lemma skipWs_close [simp]:
  "skipWs (CHR '']'' # s) = CHR '']'' # s" "skipWs (CHR ''}'' # s) = CHR ''}'' # s"
  "skipWs (CHR '','' # s) = CHR '','' # s" "skipWs (CHR '':'' # s) = CHR '':'' # s"
  "skipWs (CHR '' '' # s) = skipWs s"
  by (simp_all add: skipWs_def isWs_def)


lemma stringifyElems_Nil [simp]: "stringifyElems jn ind vs = [] \<longleftrightarrow> vs = []"
  by (cases vs) simp_all

lemma stringifyProps_Nil [simp]: "stringifyProps jn ind kvs = [] \<longleftrightarrow> kvs = []"
  by (cases kvs) auto






subsection \<open>The text of a graph\<close>


lemma allSome_map_Some [simp]: "allSome (map Some xs) = Some xs"
  by (induction xs) simp_all



lemma reread_nodeJSON [simp]: "reread jn pn (nodeJSON n) = nodeJSON n"
  by (simp add: nodeJSON_def)

lemma reread_edgeJSON [simp]: "reread jn pn (edgeJSON e) = edgeJSON e"
  by (simp add: edgeJSON_def)







end
